theory Spec2Isabelle
  imports Main "HOL-Library.Sublist" "HOL-Library.AList"
begin


section \<open>Paths and the file system\<close>

text \<open>
  The program holds paths as strings and handles them with Node's \<open>path\<close> module and
  JavaScript's string methods. A path is modelled as the list of the segments of a
  normalised absolute POSIX path (\<open>/a/b\<close> is \<open>[''a'', ''b'']\<close>, the file system root
  is \<open>[]\<close>); \<open>path_str\<close> gives the string the program holds, and the string
  operations of the source (\<open>startsWith\<close>, \<open>split\<close>) work on that string.
\<close>

type_synonym path = "string list"

definition sep :: char where
  "sep = CHR ''/''"

definition valid_name :: "string \<Rightarrow> bool" where
  "valid_name s = (s \<noteq> [] \<and> s \<noteq> ''.'' \<and> s \<noteq> ''..'' \<and> sep \<notin> set s)"

fun path_str :: "path \<Rightarrow> string" where
  "path_str [] = [sep]"
| "path_str [s] = sep # s"
| "path_str (s # t # ss) = sep # s @ path_str (t # ss)"

text \<open>\<open>Array.prototype.join(path.sep)\<close> and \<open>String.prototype.split(path.sep)\<close>.\<close>

fun join_sep :: "string list \<Rightarrow> string" where
  "join_sep [] = []"
| "join_sep [s] = s"
| "join_sep (s # t # ss) = s @ sep # join_sep (t # ss)"

fun split_sep :: "string \<Rightarrow> string list" where
  "split_sep [] = [[]]"
| "split_sep (c # cs) =
     (if c = sep then [] # split_sep cs
      else (case split_sep cs of [] \<Rightarrow> [[c]] | w # ws \<Rightarrow> (c # w) # ws))"

text \<open>\<open>current.startsWith(root)\<close>: a prefix test on the characters of the two strings.\<close>

definition startsWith :: "string \<Rightarrow> string \<Rightarrow> bool" where
  "startsWith s t = prefix t s"

text \<open>
  \<open>path.relative(from, to)\<close> on normalised absolute paths: the segments both share at the
  front are dropped, every segment left of \<open>from\<close> becomes \<open>..\<close>, the rest of \<open>to\<close>
  follows; the result is a string (empty when both paths are equal).
\<close>

fun strip_common :: "path \<Rightarrow> path \<Rightarrow> path \<times> path" where
  "strip_common (a # as) (b # bs) = (if a = b then strip_common as bs else (a # as, b # bs))"
| "strip_common as bs = (as, bs)"

definition path_relative :: "path \<Rightarrow> path \<Rightarrow> string" where
  "path_relative from to =
     (case strip_common from to of (f, t) \<Rightarrow> join_sep (replicate (length f) ''..'' @ t))"

text \<open>
  \<open>path.join(p, ...parts)\<close>: empty parts and \<open>.\<close> are skipped, \<open>..\<close> drops the last
  segment (the root stays the root), any other part is appended.
\<close>

fun path_join :: "path \<Rightarrow> string list \<Rightarrow> path" where
  "path_join p [] = p"
| "path_join p (s # ss) =
     path_join (if s = [] \<or> s = ''.'' then p
                else if s = ''..'' then butlast p
                else p @ [s]) ss"

text \<open>
  The file system is a finite tree: a directory lists its entries by name. Directory
  entries that are symbolic links are not directories for \<open>dirent.isDirectory()\<close>, so the
  walk of the source sees a tree.
\<close>

datatype fsnode = File string | Dir "(string \<times> fsnode) list"

fun isDirectory :: "fsnode \<Rightarrow> bool" where
  "isDirectory (Dir es) = True"
| "isDirectory (File c) = False"

fun resolve :: "fsnode \<Rightarrow> path \<Rightarrow> fsnode option" where
  "resolve n [] = Some n"
| "resolve (File c) (s # p) = None"
| "resolve (Dir es) (s # p) = (case map_of es s of None \<Rightarrow> None | Some n \<Rightarrow> resolve n p)"

text \<open>In a directory of a real file system the names are distinct and are valid names.\<close>

fun wf_fs :: "fsnode \<Rightarrow> bool" where
  "wf_fs (File c) = True"
| "wf_fs (Dir es) =
     (distinct (map fst es) \<and> list_all valid_name (map fst es) \<and> list_all (\<lambda>e. wf_fs (snd e)) es)"

datatype js_error = ENOENT | ENOTDIR | EISDIR | SyntaxError | TypeError

definition existsSync :: "fsnode \<Rightarrow> path \<Rightarrow> bool" where
  "existsSync fs p = (resolve fs p \<noteq> None)"

definition readdirSync :: "fsnode \<Rightarrow> path \<Rightarrow> js_error + (string \<times> fsnode) list" where
  "readdirSync fs p =
     (case resolve fs p of
        None \<Rightarrow> Inl ENOENT
      | Some (File c) \<Rightarrow> Inl ENOTDIR
      | Some (Dir es) \<Rightarrow> Inr es)"

text \<open>\<open>File.readSync(filepath)\<close>, the body of \<open>PackageParser.loadFile\<close>.\<close>

definition loadFile :: "fsnode \<Rightarrow> path \<Rightarrow> js_error + string" where
  "loadFile fs p =
     (case resolve fs p of
        None \<Rightarrow> Inl ENOENT
      | Some (Dir es) \<Rightarrow> Inl EISDIR
      | Some (File c) \<Rightarrow> Inr c)"

section \<open>Manifest parsers\<close>

text \<open>
  \<open>JSON.parse\<close> is the host's; it is a parameter that maps the raw text to a value, or to
  \<open>None\<close> where it throws a SyntaxError. An object lists its properties in the order
  \<open>Object.keys\<close> enumerates them.
\<close>

datatype json =
    JNull
  | JBool bool
  | JNumber string
  | JString string
  | JArray "json list"
  | JObject "(string \<times> json) list"

definition digit :: "nat \<Rightarrow> char" where
  "digit n = char_of (48 + n)"

function decimal :: "nat \<Rightarrow> string" where
  "decimal n = (if n < 10 then [digit n] else decimal (n div 10) @ [digit (n mod 10)])"
  by pat_completeness auto
termination
  by (relation "measure id") auto

text \<open>\<open>Object.keys(v)\<close>: throws a TypeError on \<open>null\<close>, lists the indices of a string or array.\<close>

fun Object_keys :: "json \<Rightarrow> js_error + string list" where
  "Object_keys JNull = Inl TypeError"
| "Object_keys (JBool b) = Inr []"
| "Object_keys (JNumber n) = Inr []"
| "Object_keys (JString s) = Inr (map decimal [0..<length s])"
| "Object_keys (JArray xs) = Inr (map decimal [0..<length xs])"
| "Object_keys (JObject kvs) = Inr (map fst kvs)"

text \<open>
  One property of the destructuring pattern \<open>const { name = {} } = value\<close>: the default
  stands in where the property is undefined; a parsed value that is not an object has
  none of the properties read here.
\<close>

fun property_or_empty :: "json \<Rightarrow> string \<Rightarrow> json" where
  "property_or_empty (JObject kvs) name =
     (case map_of kvs name of None \<Rightarrow> JObject [] | Some v \<Rightarrow> v)"
| "property_or_empty v name = JObject []"

definition keys_of_blocks :: "json \<Rightarrow> string list \<Rightarrow> js_error + string list" where
  "keys_of_blocks v names =
     foldl (\<lambda>acc name.
              case acc of
                Inl e \<Rightarrow> Inl e
              | Inr ks \<Rightarrow>
                  (case Object_keys (property_or_empty v name) of
                     Inl e \<Rightarrow> Inl e
                   | Inr ks' \<Rightarrow> Inr (ks @ ks')))
           (Inr []) names"

definition destructure_keys ::
    "(string \<Rightarrow> json option) \<Rightarrow> string list \<Rightarrow> string \<Rightarrow> js_error + string list" where
  "destructure_keys JSON_parse names raw =
     (case JSON_parse raw of
        None \<Rightarrow> Inl SyntaxError
      | Some JNull \<Rightarrow> Inl TypeError
      | Some v \<Rightarrow> keys_of_blocks v names)"

text \<open>
  A parser class: its \<open>filename\<close>, what \<open>ignoreDirectories()\<close> returns and its
  \<open>parserRaw\<close>. \<open>PackageParser_base\<close> is the abstract class with the filename a subclass
  gives it.
\<close>

record PackageParser =
  filename :: string
  ignoreDirectories :: "string list"
  parserRaw :: "string \<Rightarrow> js_error + string list"

definition PackageParser_base :: "(string \<Rightarrow> json option) \<Rightarrow> string \<Rightarrow> PackageParser" where
  "PackageParser_base JSON_parse name =
     \<lparr> filename = name,
       ignoreDirectories = [''.git''],
       parserRaw = destructure_keys JSON_parse
                     [''dependencies'', ''devDependencies'', ''peerDependencies''] \<rparr>"

definition PackageJSONParser :: "(string \<Rightarrow> json option) \<Rightarrow> PackageParser" where
  "PackageJSONParser JSON_parse =
     \<lparr> filename = ''package.json'',
       ignoreDirectories = [''node_modules'', ''.git''],
       parserRaw = destructure_keys JSON_parse
                     [''dependencies'', ''devDependencies'', ''peerDependencies''] \<rparr>"

definition ComposerJSONParser :: "(string \<Rightarrow> json option) \<Rightarrow> PackageParser" where
  "ComposerJSONParser JSON_parse =
     \<lparr> filename = ''composer.json'',
       ignoreDirectories = [''vendor'', ''.git''],
       parserRaw = destructure_keys JSON_parse [''require''] \<rparr>"

section \<open>PackageParser.load\<close>

text \<open>\<open>Set.prototype.add\<close> on a set kept in insertion order.\<close>

definition set_add :: "'a \<Rightarrow> 'a list \<Rightarrow> 'a list" where
  "set_add x xs = (if x \<in> set xs then xs else xs @ [x])"

text \<open>
  \<open>traverseDirectory(subdir, filename, ignoreDirectories)\<close>. The third argument is the
  directory \<open>readdirSync(subdir)\<close> reads (in a well-formed file system, the node found
  at \<open>subdir\<close>); the last is the set \<open>packageFilepaths\<close> the closure adds to. The walk
  enters directories only, so the second equation is never reached from the first.
\<close>

fun traverseDirectory ::
    "fsnode \<Rightarrow> path \<Rightarrow> fsnode \<Rightarrow> string \<Rightarrow> string list \<Rightarrow> path list \<Rightarrow> path list" where
  "traverseDirectory fs subdir (Dir es) name ign acc =
     fold (\<lambda>e a. traverseDirectory fs (path_join subdir [fst e]) (snd e) name ign a)
          (filter (\<lambda>e. isDirectory (snd e) \<and> fst e \<notin> set ign) es)
          (if existsSync fs (path_join subdir [name])
           then set_add (path_join subdir [name]) acc else acc)"
| "traverseDirectory fs subdir (File c) name ign acc = acc"

text \<open>
  The first half of \<open>load\<close>: the set of manifest paths. \<open>readdirSync(root)\<close> throws when
  the root is not a directory, outside the \<open>try\<close> block.
\<close>

definition packageFilepaths :: "PackageParser \<Rightarrow> fsnode \<Rightarrow> path \<Rightarrow> js_error + path list" where
  "packageFilepaths P fs root =
     (let rootPackageFilepath = path_join root [filename P];
          acc = (if existsSync fs rootPackageFilepath then set_add rootPackageFilepath [] else [])
      in case readdirSync fs root of
           Inl e \<Rightarrow> Inl e
         | Inr es \<Rightarrow> Inr (traverseDirectory fs root (Dir es) (filename P) (ignoreDirectories P) acc))"

datatype log_msg =
    PackagesFileNotExists string
  | PackagesFileFound string
  | ErrorOnParsing string path
  | ConfigChangedReloading string
  | ConfigChanged string
  | ReloadingLoader
  | EnabledFrameworksAre "string list"
  | EnabledParsersAre "string list"
  | BlankLine
  | NotAValidProject
  | NowEnabled
  | NowDisabled

text \<open>The loop of the \<open>try\<close> block: the first file that fails to load or parse ends it.\<close>

fun parse_files :: "PackageParser \<Rightarrow> fsnode \<Rightarrow> path list \<Rightarrow> string list \<Rightarrow> js_error + string list" where
  "parse_files P fs [] data = Inr data"
| "parse_files P fs (filepath # rest) data =
     (case loadFile fs filepath of
        Inl e \<Rightarrow> Inl e
      | Inr raw \<Rightarrow>
          (case parserRaw P raw of
             Inl e \<Rightarrow> Inl e
           | Inr ks \<Rightarrow> parse_files P fs rest (data @ ks)))"

text \<open>
  \<open>load(root)\<close>: what it returns (\<open>Inr None\<close> is \<open>undefined\<close>, \<open>Inl\<close> an exception that
  leaves the function) and the lines it logs.
\<close>

definition load :: "PackageParser \<Rightarrow> fsnode \<Rightarrow> path \<Rightarrow> (js_error + string list option) \<times> log_msg list" where
  "load P fs root =
     (case packageFilepaths P fs root of
        Inl e \<Rightarrow> (Inl e, [])
      | Inr ps \<Rightarrow>
          if length ps = 0 then (Inr None, [PackagesFileNotExists (filename P)])
          else (case parse_files P fs ps [] of
                  Inr data \<Rightarrow> (Inr (Some data), [PackagesFileFound (filename P)])
                | Inl e \<Rightarrow>
                    (Inr None, [PackagesFileFound (filename P), ErrorOnParsing (filename P) root])))"

section \<open>Global: the state and its collaborators\<close>

text \<open>
  A framework, as far as \<open>Global\<close> reads it. A property that may be \<open>undefined\<close> is an
  option.
\<close>

record Framework =
  display :: string
  f_enabledParsers :: "string list option"
  perferredLocalePaths :: "string list option"
  f_getUsageMatchRegex :: "string option \<Rightarrow> string option \<Rightarrow> string list"

record Parser =
  parser_id :: string
  supportedExts :: string

record WorkspaceFolder =
  uri_fsPath :: path
  folder_name :: string

text \<open>
  A \<open>LocaleLoader\<close> object: the folder it was constructed for and, to tell two objects
  for one folder apart, its number among the loaders constructed so far.
\<close>

record LocaleLoader =
  loader_root :: path
  loader_serial :: nat

text \<open>The values \<open>Config\<close> gives at the time of a call. A regular expression is its source.\<close>

type_synonym RegExp = string

record Config =
  cfg_disabled :: bool
  cfg_enabledFrameworks :: "string list option"
  cfg_enabledParsers :: "string list option"
  cfg_localesPaths :: "string list option"
  getLocalesPathsInScope :: "WorkspaceFolder \<Rightarrow> string list option"
  cfg_regexUsageMatch :: "string list option"
  cfg_regexUsageMatchAppend :: "string list"
  reloadConfigs :: "string list"
  refreshConfigs :: "string list"
  usageRefreshConfigs :: "string list"
  autoDetection :: bool
  extractAutoDetect :: bool

text \<open>
  What the module imports: the configuration, the parser tables, the framework
  detection functions (\<open>'pk\<close> is what \<open>getPackageDependencies\<close> returns) and
  \<open>normalizeUsageMatchRegex\<close>. \<open>getPackageDependencies\<close> scans the folder's manifests and
  \<open>getEnabledFrameworks\<close> runs the frameworks' detection; either may throw (the scan of
  \<open>load\<close> throws where the folder cannot be read), and \<open>Inl\<close> is the exception.
\<close>

record 'pk Env =
  config :: Config
  EXT_NAMESPACE :: string
  AvailableParsers :: "Parser list"
  DefaultEnabledParsers :: "string list"
  getPackageDependencies :: "path \<Rightarrow> js_error + 'pk"
  getEnabledFrameworks :: "'pk \<Rightarrow> path \<Rightarrow> js_error + Framework list"
  getEnabledFrameworksByIds :: "string list \<Rightarrow> path option \<Rightarrow> Framework list"
  normalizeUsageMatchRegex :: "string list \<Rightarrow> RegExp list"

text \<open>
  The static fields of \<open>Global\<close>. The two paths and the workspace folder are declared
  without an initial value, so they are \<open>undefined\<close> (\<open>None\<close>) until \<open>updateRootPaths\<close>
  sets them, and it never stores an empty string. \<open>loadersCreated\<close> counts the
  \<open>LocaleLoader\<close> objects constructed.
\<close>

record Global =
  loaders :: "(path \<times> LocaleLoader) list"
  currentWorkspaceRootPath :: "path option"
  currentActiveFilePath :: "path option"
  nearestEnabledFrameworkPath :: "path option"
  enabled :: bool
  currentWorkspaceFolder :: "WorkspaceFolder option"
  enabledFrameworks :: "Framework list"
  cacheUsageMatchRegex :: "string \<rightharpoonup> RegExp list"
  loadersCreated :: nat

definition Global_initial :: Global where
  "Global_initial =
     \<lparr> loaders = [], currentWorkspaceRootPath = None, currentActiveFilePath = None,
       nearestEnabledFrameworkPath = None, enabled = False, currentWorkspaceFolder = None,
       enabledFrameworks = [], cacheUsageMatchRegex = Map.empty, loadersCreated = 0 \<rparr>"

text \<open>What a call does besides changing the fields, in the order it does it.\<close>

datatype effect =
    Log log_msg
  | AnalystRefresh
  | SetContext string bool
  | TelemetryTrackEnabled
  | TelemetryUpdateUserProperties
  | CheckNotification
  | LoaderCreated LocaleLoader
  | LoaderDisposed LocaleLoader
  | ConfigLocalesGuideAutoSet
  | ScanPackages path
  | FireDidChangeEnabled bool
  | FireDidChangeLoader "LocaleLoader option"

datatype completion = Returned | Threw js_error

section \<open>Global: framework settings\<close>

definition resetCache :: "Global \<Rightarrow> Global" where
  "resetCache s = s\<lparr>cacheUsageMatchRegex := Map.empty\<rparr>"

text \<open>A template literal prints an undefined argument as \<open>undefined\<close>.\<close>

fun template_str :: "string option \<Rightarrow> string" where
  "template_str None = ''undefined''"
| "template_str (Some x) = x"

definition getUsageMatchRegex ::
    "'pk Env \<Rightarrow> Global \<Rightarrow> string option \<Rightarrow> string option \<Rightarrow> RegExp list \<times> Global" where
  "getUsageMatchRegex E s languageId filepath =
     (case cfg_regexUsageMatch (config E) of
        Some regexUsageMatch \<Rightarrow>
          (case cacheUsageMatchRegex s ''custom'' of
             None \<Rightarrow>
               (let v = normalizeUsageMatchRegex E
                          (regexUsageMatch @ cfg_regexUsageMatchAppend (config E))
                in (v, s\<lparr>cacheUsageMatchRegex := (cacheUsageMatchRegex s)(''custom'' \<mapsto> v)\<rparr>))
           | Some v \<Rightarrow> (v, s))
      | None \<Rightarrow>
          (let key = template_str languageId @ ''_'' @ template_str filepath
           in case cacheUsageMatchRegex s key of
                None \<Rightarrow>
                  (let v = normalizeUsageMatchRegex E
                             (concat (map (\<lambda>f. f_getUsageMatchRegex f languageId filepath)
                                          (enabledFrameworks s))
                              @ cfg_regexUsageMatchAppend (config E))
                   in (v, s\<lparr>cacheUsageMatchRegex := (cacheUsageMatchRegex s)(key \<mapsto> v)\<rparr>))
              | Some v \<Rightarrow> (v, s)))"

text \<open>A run of calls of \<open>getUsageMatchRegex\<close>, and the state it leaves.\<close>

fun getUsageMatchRegex_calls ::
    "'pk Env \<Rightarrow> Global \<Rightarrow> (string option \<times> string option) list \<Rightarrow> Global" where
  "getUsageMatchRegex_calls E s [] = s"
| "getUsageMatchRegex_calls E s (a # as) =
     getUsageMatchRegex_calls E (snd (getUsageMatchRegex E s (fst a) (snd a))) as"

definition or_empty :: "'a list option \<Rightarrow> 'a list" where
  "or_empty v = (case v of None \<Rightarrow> [] | Some xs \<Rightarrow> xs)"

definition localesPaths :: "'pk Env \<Rightarrow> Global \<Rightarrow> string list option" where
  "localesPaths E s =
     (let config0 = (case currentWorkspaceFolder s of
                       Some folder \<Rightarrow> getLocalesPathsInScope (config E) folder
                     | None \<Rightarrow> cfg_localesPaths (config E))
      in case config0 of
           Some c \<Rightarrow> Some c
         | None \<Rightarrow>
             (let c = concat (map (\<lambda>f. or_empty (perferredLocalePaths f)) (enabledFrameworks s))
              in if length c = 0 then None else Some c))"

definition parser_ids :: "'pk Env \<Rightarrow> Global \<Rightarrow> string list" where
  "parser_ids E s =
     (let from_frameworks = concat (map (\<lambda>f. or_empty (f_enabledParsers f)) (enabledFrameworks s));
          ids = (case cfg_enabledParsers (config E) of
                   None \<Rightarrow> from_frameworks
                 | Some c \<Rightarrow> if length c = 0 then from_frameworks else c)
      in if length ids = 0 then DefaultEnabledParsers E else ids)"

definition enabledParsers :: "'pk Env \<Rightarrow> Global \<Rightarrow> Parser list" where
  "enabledParsers E s = filter (\<lambda>i. parser_id i \<in> set (parser_ids E s)) (AvailableParsers E)"

section \<open>Global: the nearest folder that enables a framework\<close>

text \<open>
  The loop over \<open>folders\<close>: what it returns, or the exception that leaves it (the loop
  has no \<open>try\<close>), and the folders \<open>getPackageDependencies\<close> was called on, in order.
\<close>

fun nearest_loop ::
    "'pk Env \<Rightarrow> path list \<Rightarrow> (js_error + (Framework list \<times> path option)) \<times> path list" where
  "nearest_loop E [] = (Inr ([], None), [])"
| "nearest_loop E (folder # rest) =
     (case getPackageDependencies E folder of
        Inl e \<Rightarrow> (Inl e, [folder])
      | Inr packages \<Rightarrow>
          (case getEnabledFrameworks E packages folder of
             Inl e \<Rightarrow> (Inl e, [folder])
           | Inr frameworks \<Rightarrow>
               if length frameworks \<noteq> 0 then (Inr (frameworks, Some folder), [folder])
               else (case nearest_loop E rest of (r, visited) \<Rightarrow> (r, folder # visited))))"

text \<open>
  The list \<open>folders\<close>: \<open>path.join(root, ...subfolders.slice(0, i))\<close> for \<open>i\<close> from
  \<open>subfolders.length\<close> down to 1, then \<open>root\<close>.
\<close>

definition folders_of :: "path \<Rightarrow> path \<Rightarrow> path list" where
  "folders_of root current =
     (let subfolders = split_sep (path_relative root current)
      in map (\<lambda>i. path_join root (take i subfolders)) (rev [1..<Suc (length subfolders)])
         @ [root])"

text \<open>
  \<open>findNearestEnabledFrameworks(root, current)\<close>: what it returns or the exception that
  leaves it, and the folders scanned. \<open>current.startsWith\<close> throws a TypeError when
  \<open>current\<close> is undefined; an undefined \<open>root\<close> is searched for as the text
  \<open>undefined\<close>, which no absolute path starts with.
\<close>

definition findNearestEnabledFrameworks ::
    "'pk Env \<Rightarrow> path option \<Rightarrow> path option
       \<Rightarrow> (js_error + (Framework list \<times> path option)) \<times> path list" where
  "findNearestEnabledFrameworks E root current =
     (case current of
        None \<Rightarrow> (Inl TypeError, [])
      | Some cur \<Rightarrow>
          (case root of
             None \<Rightarrow> (Inr ([], None), [])
           | Some r \<Rightarrow>
               if \<not> startsWith (path_str cur) (path_str r) then (Inr ([], None), [])
               else nearest_loop E (folders_of r cur)))"

section \<open>Global: loaders and the enabled state\<close>

text \<open>The getter \<open>loader\<close>: \<open>_loaders[_currentWorkspaceRootPath]\<close>.\<close>

definition loader :: "Global \<Rightarrow> LocaleLoader option" where
  "loader s = (case currentWorkspaceRootPath s of None \<Rightarrow> None | Some r \<Rightarrow> map_of (loaders s) r)"

text \<open>
  \<open>initLoader(folderPath, reload)\<close>: nothing for an undefined path; otherwise
  \<open>checkNotification\<close>, then the registered loader is kept unless a reload is asked for
  or none is registered, in which case a new loader is constructed and assigned to the
  path's entry (an assignment to an existing key keeps its place, a new key is added
  last). \<open>update\<close> does not use what the function returns.
\<close>

definition initLoader :: "Global \<Rightarrow> path option \<Rightarrow> bool \<Rightarrow> Global \<times> effect list" where
  "initLoader s folderPath reload =
     (case folderPath of
        None \<Rightarrow> (s, [])
      | Some fp \<Rightarrow>
          if map_of (loaders s) fp \<noteq> None \<and> \<not> reload then (s, [CheckNotification])
          else (let l = \<lparr> loader_root = fp, loader_serial = loadersCreated s \<rparr>
                in (s\<lparr>loaders := AList.update fp l (loaders s),
                      loadersCreated := Suc (loadersCreated s)\<rparr>,
                    [CheckNotification, LoaderCreated l])))"

text \<open>\<open>unloadAll\<close> disposes \<open>Object.values(_loaders)\<close> in order and empties the registry.\<close>

definition unloadAll :: "Global \<Rightarrow> Global \<times> effect list" where
  "unloadAll s = (s\<lparr>loaders := []\<rparr>, map (\<lambda>e. LoaderDisposed (snd e)) (loaders s))"

text \<open>\<open>setEnabled(value)\<close> acts only when the value differs from the stored one.\<close>

definition setEnabled :: "'pk Env \<Rightarrow> Global \<Rightarrow> bool \<Rightarrow> Global \<times> effect list" where
  "setEnabled E s v =
     (if enabled s \<noteq> v
      then (s\<lparr>enabled := v\<rparr>,
            [Log (if v then NowEnabled else NowDisabled),
             SetContext (EXT_NAMESPACE E @ ''-enabled'') v,
             FireDidChangeEnabled v])
      else (s, []))"

section \<open>Global.update\<close>

record update_args =
  event :: "(string \<Rightarrow> bool) option"
  workspaceRootPathChanged :: "bool option"
  activeFilePathChanged :: "bool option"

definition config_key :: "'pk Env \<Rightarrow> string \<Rightarrow> string" where
  "config_key E c = EXT_NAMESPACE E @ ''.'' @ c"

text \<open>One of the three loops over a list of option names: the first name the event affects.\<close>

definition first_affected :: "'pk Env \<Rightarrow> (string \<Rightarrow> bool) \<Rightarrow> string list \<Rightarrow> string option" where
  "first_affected E affectsConfiguration configs =
     find (\<lambda>c. affectsConfiguration (config_key E c)) configs"

text \<open>
  The block \<open>if (event) { ... }\<close> up to the test of \<open>affected\<close>: the two flags and what the
  three loops log and refresh.
\<close>

definition scan_event :: "'pk Env \<Rightarrow> (string \<Rightarrow> bool) \<Rightarrow> bool \<times> bool \<times> effect list" where
  "scan_event E ev =
     (let r = first_affected E ev (reloadConfigs (config E));
          f = first_affected E ev (refreshConfigs (config E));
          u = first_affected E ev (usageRefreshConfigs (config E));
          reload = (case r of None \<Rightarrow> False | Some c \<Rightarrow> True);
          affected = (case r of Some c \<Rightarrow> True
                      | None \<Rightarrow> (case f of None \<Rightarrow> False | Some c \<Rightarrow> True))
      in (affected, reload,
          (case r of None \<Rightarrow> [] | Some c \<Rightarrow> [Log (ConfigChangedReloading (config_key E c))])
          @ (case f of None \<Rightarrow> [] | Some c \<Rightarrow> [Log (ConfigChanged (config_key E c))])
          @ (case u of None \<Rightarrow> []
             | Some c \<Rightarrow> [AnalystRefresh, Log (ConfigChanged (config_key E c))])))"

text \<open>
  The assignment of \<open>enabledFrameworks\<close>: the nearest-folder search unless the
  configuration names the frameworks. An exception of the search leaves the fields as
  they are.
\<close>

definition assign_frameworks :: "'pk Env \<Rightarrow> Global \<Rightarrow> (js_error + Global) \<times> effect list" where
  "assign_frameworks E s =
     (case cfg_enabledFrameworks (config E) of
        None \<Rightarrow>
          (case findNearestEnabledFrameworks E (currentWorkspaceRootPath s) (currentActiveFilePath s) of
             (Inl e, visited) \<Rightarrow> (Inl e, map ScanPackages visited)
           | (Inr r, visited) \<Rightarrow>
               (Inr (s\<lparr>enabledFrameworks := fst r, nearestEnabledFrameworkPath := snd r\<rparr>),
                map ScanPackages visited))
      | Some frameworks \<Rightarrow>
          (Inr (s\<lparr>enabledFrameworks :=
                     getEnabledFrameworksByIds E frameworks (currentWorkspaceRootPath s)\<rparr>), []))"

definition isValidProject :: "'pk Env \<Rightarrow> Global \<Rightarrow> bool" where
  "isValidProject E s = (length (enabledFrameworks s) > 0 \<and> length (enabledParsers E s) > 0)"

definition hasLocalesSet :: "'pk Env \<Rightarrow> Global \<Rightarrow> bool" where
  "hasLocalesSet E s = (case localesPaths E s of None \<Rightarrow> False | Some c \<Rightarrow> True)"

definition shouldEnabled :: "'pk Env \<Rightarrow> Global \<Rightarrow> bool" where
  "shouldEnabled E s = (\<not> cfg_disabled (config E) \<and> isValidProject E s \<and> hasLocalesSet E s)"

text \<open>The two branches of \<open>if (this.enabled)\<close>.\<close>

definition when_enabled :: "'pk Env \<Rightarrow> Global \<Rightarrow> bool \<Rightarrow> Global \<times> effect list" where
  "when_enabled E s reload =
     (case initLoader s (currentWorkspaceRootPath s) reload of
        (s', es) \<Rightarrow>
          (s', [Log (EnabledFrameworksAre (map display (enabledFrameworks s))),
                Log (EnabledParsersAre (map parser_id (enabledParsers E s))),
                Log BlankLine,
                SetContext ''i18n-ally.extract.autoDetect'' (extractAutoDetect (config E)),
                TelemetryTrackEnabled,
                TelemetryUpdateUserProperties] @ es))"

definition when_disabled :: "'pk Env \<Rightarrow> Global \<Rightarrow> Global \<times> effect list" where
  "when_disabled E s =
     (case unloadAll s of
        (s', es) \<Rightarrow>
          (s', (if \<not> cfg_disabled (config E)
                then (if \<not> isValidProject E s \<and> hasLocalesSet E s then [Log NotAValidProject] else [])
                     @ (if isValidProject E s \<and> \<not> hasLocalesSet E s \<and> autoDetection (config E)
                        then [ConfigLocalesGuideAutoSet] else [])
                else []) @ es))"

text \<open>The body of \<open>update\<close> after the block that reads the event.\<close>

definition recompute :: "'pk Env \<Rightarrow> Global \<Rightarrow> bool \<Rightarrow> effect list \<Rightarrow> Global \<times> effect list \<times> completion" where
  "recompute E s reload logged =
     (case assign_frameworks E s of
        (Inl e, scanned) \<Rightarrow> (s, logged @ scanned, Threw e)
      | (Inr s2, scanned) \<Rightarrow>
          (case setEnabled E s2 (shouldEnabled E s2) of
             (s3, e3) \<Rightarrow>
               (case (if enabled s3 then when_enabled E s3 reload else when_disabled E s3) of
                  (s4, e4) \<Rightarrow>
                    (s4, logged @ scanned @ e3 @ e4 @ [FireDidChangeLoader (loader s4)], Returned))))"

definition update :: "'pk Env \<Rightarrow> update_args \<Rightarrow> Global \<Rightarrow> Global \<times> effect list \<times> completion" where
  "update E args s =
     (let s1 = resetCache s
      in case event args of
           None \<Rightarrow> recompute E s1 False []
         | Some ev \<Rightarrow>
             (case scan_event E ev of
                (affected, reload, es) \<Rightarrow>
                  if \<not> affected then (s1, es, Returned)
                  else recompute E s1 reload (es @ (if reload then [Log ReloadingLoader] else []))))"

section \<open>The manifest scan, as a set\<close>

text \<open>
  A directory the scan reaches from \<open>root\<close>: the root itself or a directory below it
  with no ignored name on the way down from the root.
\<close>

definition scanned_dir :: "fsnode \<Rightarrow> path \<Rightarrow> string list \<Rightarrow> path \<Rightarrow> bool" where
  "scanned_dir fs root ign d =
     (\<exists>ns. d = root @ ns \<and> list_all (\<lambda>n. n \<notin> set ign) ns \<and> (\<exists>es. resolve fs d = Some (Dir es)))"

text \<open>
  The set as the specification writes it: the root's manifest path, joined with the
  manifest paths that exist in the reached directories below the root.
\<close>

definition claimed_manifest_set :: "fsnode \<Rightarrow> path \<Rightarrow> string \<Rightarrow> string list \<Rightarrow> path set" where
  "claimed_manifest_set fs root name ign =
     insert (root @ [name])
       {d @ [name] | d. d \<noteq> root \<and> scanned_dir fs root ign d \<and> existsSync fs (d @ [name])}"

text \<open>
  The manifests a walk started at the node \<open>node\<close> of \<open>subdir\<close> finds.
\<close>

definition manifests_below :: "fsnode \<Rightarrow> path \<Rightarrow> fsnode \<Rightarrow> string \<Rightarrow> string list \<Rightarrow> path set" where
  "manifests_below fs subdir node name ign =
     {subdir @ ns @ [name] | ns. list_all (\<lambda>n. n \<notin> set ign) ns \<and> (\<exists>es. resolve node ns = Some (Dir es))
        \<and> existsSync fs (subdir @ ns @ [name])}"

section \<open>An example workspace\<close>

text \<open>
  A file system with the layout of the specification's end-to-end example: an empty
  manifest in \<open>/root\<close>, a manifest that declares \<open>vue-i18n\<close> in \<open>/root/app\<close>, a
  manifest inside \<open>node_modules\<close>, a malformed one in \<open>/root/broken\<close>; beside it a
  folder \<open>/root_old\<close> with a manifest of its own, and a tree whose only manifest is not
  in its root. \<open>example_JSON_parse\<close> is \<open>JSON.parse\<close> on
  the texts of these files; any other text is taken as malformed.
\<close>

definition dq :: "string \<Rightarrow> string" where
  "dq s = CHR 0x22 # s @ [CHR 0x22]"

definition vue_manifest_text :: string where
  "vue_manifest_text =
     ''{'' @ dq ''dependencies'' @ '':{'' @ dq ''vue-i18n'' @ '':'' @ dq ''1.0'' @ ''}}''"

definition example_JSON_parse :: "string \<Rightarrow> json option" where
  "example_JSON_parse raw =
     (if raw = ''{}'' then Some (JObject [])
      else if raw = ''null'' then Some JNull
      else if raw = vue_manifest_text
      then Some (JObject [(''dependencies'', JObject [(''vue-i18n'', JString ''1.0'')])])
      else None)"

definition example_fs :: fsnode where
  "example_fs =
     Dir [(''root'',
           Dir [(''package.json'', File ''{}''),
                (''node_modules'', Dir [(''dep'', Dir [(''package.json'', File ''{}'')])]),
                (''app'',
                 Dir [(''package.json'', File vue_manifest_text),
                      (''src'', Dir [(''x'', Dir [])])]),
                (''broken'', Dir [(''package.json'', File ''{'')])]),
          (''root_old'', Dir [(''package.json'', File vue_manifest_text)]),
          (''inner_only'', Dir [(''sub'', Dir [(''package.json'', File ''{}'')])])]"

section \<open>The nearest-folder search, as a search over the ancestors\<close>







definition ancestors :: "path \<Rightarrow> string list \<Rightarrow> path list" where
  "ancestors root rest = map (\<lambda>i. root @ take i rest) (rev [0..<Suc (length rest)])"



text \<open>
  The example's collaborators: one framework, enabled by the dependency \<open>vue-i18n\<close>;
  the dependencies are what \<open>PackageJSONParser.load\<close> returns for the folder in the
  example file system, and its exception where it throws.
\<close>

definition vue_framework :: Framework where
  "vue_framework =
     \<lparr> display = ''Vue'',
       f_enabledParsers = Some [''json'', ''yaml''],
       perferredLocalePaths = Some [''locales''],
       f_getUsageMatchRegex = (\<lambda>languageId filepath. [''vue-usage'']) \<rparr>"

definition example_config :: Config where
  "example_config =
     \<lparr> cfg_disabled = False,
       cfg_enabledFrameworks = None,
       cfg_enabledParsers = None,
       cfg_localesPaths = None,
       getLocalesPathsInScope = (\<lambda>folder. None),
       cfg_regexUsageMatch = None,
       cfg_regexUsageMatchAppend = [],
       reloadConfigs = [''localesPaths'', ''enabledFrameworks'', ''enabledParsers''],
       refreshConfigs = [''sourceLanguage'', ''displayLanguage''],
       usageRefreshConfigs = [''keysInUse''],
       autoDetection = True,
       extractAutoDetect = False \<rparr>"

definition example_env :: "(string list option) Env" where
  "example_env =
     \<lparr> config = example_config,
       EXT_NAMESPACE = ''i18n-ally'',
       AvailableParsers = [\<lparr> parser_id = ''json'', supportedExts = ''json'' \<rparr>,
                           \<lparr> parser_id = ''yaml'', supportedExts = ''ya?ml'' \<rparr>],
       DefaultEnabledParsers = [''json'', ''yaml'', ''json5''],
       getPackageDependencies =
         (\<lambda>folder. fst (load (PackageJSONParser example_JSON_parse) example_fs folder)),
       getEnabledFrameworks =
         (\<lambda>packages folder.
            Inr (case packages of
                   Some deps \<Rightarrow> if ''vue-i18n'' \<in> set deps then [vue_framework] else []
                 | None \<Rightarrow> [])),
       getEnabledFrameworksByIds =
         (\<lambda>ids root. if ''vue'' \<in> set ids then [vue_framework] else []),
       normalizeUsageMatchRegex = (\<lambda>sources. sources) \<rparr>"

section \<open>The calls of update that recompute, and what counts as a notification\<close>

text \<open>
  A call of \<open>update\<close> gets past the test of \<open>affected\<close> when it has no event, or when
  its event affects an option of the reload list or of the refresh list.
\<close>

definition recomputes :: "'pk Env \<Rightarrow> update_args \<Rightarrow> bool" where
  "recomputes E args =
     (case event args of
        None \<Rightarrow> True
      | Some ev \<Rightarrow>
          list_ex (\<lambda>c. ev (config_key E c)) (reloadConfigs (config E) @ refreshConfigs (config E)))"

definition forces_reload :: "'pk Env \<Rightarrow> update_args \<Rightarrow> bool" where
  "forces_reload E args =
     (case event args of
        None \<Rightarrow> False
      | Some ev \<Rightarrow> list_ex (\<lambda>c. ev (config_key E c)) (reloadConfigs (config E)))"

text \<open>An event that affects no option of the three lists.\<close>

definition unrelated :: "'pk Env \<Rightarrow> (string \<Rightarrow> bool) \<Rightarrow> bool" where
  "unrelated E ev =
     (\<not> list_ex (\<lambda>c. ev (config_key E c))
          (reloadConfigs (config E) @ refreshConfigs (config E) @ usageRefreshConfigs (config E)))"

text \<open>The events \<open>Global\<close> fires to its subscribers.\<close>

fun is_notification :: "effect \<Rightarrow> bool" where
  "is_notification (FireDidChangeEnabled v) = True"
| "is_notification (FireDidChangeLoader l) = True"
| "is_notification e = False"

fun is_enabled_notification :: "effect \<Rightarrow> bool" where
  "is_enabled_notification (FireDidChangeEnabled v) = True"
| "is_enabled_notification e = False"

text \<open>
  The example's states: the fields as \<open>updateRootPaths\<close> leaves them for a file in
  \<open>/root/app/src/x\<close> of the workspace \<open>/root\<close>, before it calls \<open>update\<close>, and the
  state the first call of \<open>update\<close> leaves.
\<close>

definition ready_state :: Global where
  "ready_state =
     Global_initial\<lparr> currentWorkspaceRootPath := Some [''root''],
                      currentActiveFilePath := Some [''root'', ''app'', ''src'', ''x''] \<rparr>"

definition no_event :: update_args where
  "no_event = \<lparr> event = None, workspaceRootPathChanged = None, activeFilePathChanged = None \<rparr>"

definition other_event :: update_args where
  "other_event =
     \<lparr> event = Some (\<lambda>key. key = ''editor.fontSize''),
       workspaceRootPathChanged = None, activeFilePathChanged = None \<rparr>"

definition enabled_state :: Global where
  "enabled_state =
     ready_state\<lparr> loaders := [([''root''], \<lparr> loader_root = [''root''], loader_serial = 0 \<rparr>)],
                   nearestEnabledFrameworkPath := Some [''root'', ''app''],
                   enabled := True,
                   enabledFrameworks := [vue_framework],
                   loadersCreated := 1 \<rparr>"

text \<open>
  Variants of the example: the framework without preferred locale paths, the extension
  disabled by the configuration, a usage-match override, and a state that holds the
  loaders of two workspace roots.
\<close>

definition bare_env :: "(string list option) Env" where
  "bare_env =
     example_env\<lparr> getEnabledFrameworks :=
       (\<lambda>packages folder.
          Inr (case packages of
                 Some deps \<Rightarrow>
                   if ''vue-i18n'' \<in> set deps
                   then [vue_framework\<lparr> perferredLocalePaths := None \<rparr>] else []
               | None \<Rightarrow> [])) \<rparr>"

definition disabled_env :: "(string list option) Env" where
  "disabled_env = example_env\<lparr> config := example_config\<lparr> cfg_disabled := True \<rparr> \<rparr>"

definition override_env :: "(string list option) Env" where
  "override_env =
     example_env\<lparr> config := example_config\<lparr> cfg_regexUsageMatch := Some [''custom-usage''],
                                                 cfg_regexUsageMatchAppend := [''appended''] \<rparr> \<rparr>"

text \<open>
  A configuration whose reload list does not name \<open>localesPaths\<close>, with the locale paths
  configured and with that option removed; the event of the removal; and the state
  \<open>update\<close> leaves while the option is set.
\<close>

definition configured_env :: "(string list option) Env" where
  "configured_env =
     bare_env\<lparr> config := example_config\<lparr> cfg_localesPaths := Some [''locales''],
                                             reloadConfigs := [''enabledFrameworks'', ''enabledParsers''] \<rparr> \<rparr>"

definition unconfigured_env :: "(string list option) Env" where
  "unconfigured_env =
     bare_env\<lparr> config := example_config\<lparr> cfg_localesPaths := None,
                                             reloadConfigs := [''enabledFrameworks'', ''enabledParsers''] \<rparr> \<rparr>"

definition locales_event :: update_args where
  "locales_event =
     \<lparr> event = Some (\<lambda>key. key = ''i18n-ally.localesPaths''),
       workspaceRootPathChanged = None, activeFilePathChanged = None \<rparr>"

definition stale_state :: Global where
  "stale_state =
     enabled_state\<lparr> enabledFrameworks := [vue_framework\<lparr> perferredLocalePaths := None \<rparr>] \<rparr>"

definition two_roots_state :: Global where
  "two_roots_state =
     enabled_state\<lparr> loaders := [([''other''], \<lparr> loader_root = [''other''], loader_serial = 0 \<rparr>),
                                  ([''root''], \<lparr> loader_root = [''root''], loader_serial = 1 \<rparr>)],
                     loadersCreated := 2 \<rparr>"

definition bare_state :: Global where
  "bare_state =
     ready_state\<lparr> nearestEnabledFrameworkPath := Some [''root'', ''app''],
                   enabledFrameworks := [vue_framework\<lparr> perferredLocalePaths := None \<rparr>] \<rparr>"

definition cached_state :: Global where
  "cached_state = snd (getUsageMatchRegex example_env enabled_state (Some ''vue'') None)"

text \<open>
  The entry \<open>custom\<close> of the usage-match cache is absent or holds the value \<open>v\<close>.
\<close>

definition custom_ok :: "RegExp list \<Rightarrow> Global \<Rightarrow> bool" where
  "custom_ok v s = (cacheUsageMatchRegex s ''custom'' = None \<or> cacheUsageMatchRegex s ''custom'' = Some v)"


section \<open>Properties of PackageParser.load\<close>

lemma path_join_valid: "valid_name n \<Longrightarrow> path_join p [n] = p @ [n]"
  by (simp add: valid_name_def)

lemma resolve_append:
  "resolve n (p @ q) = (case resolve n p of None \<Rightarrow> None | Some m \<Rightarrow> resolve m q)"
proof (induction n p rule: resolve.induct)
  case (1 n)
  then show ?case by simp
next
  case (2 c s p)
  then show ?case by simp
next
  case (3 es s p)
  then show ?case by (cases "map_of es s") simp_all
qed

lemma wf_fs_resolve: "wf_fs n \<Longrightarrow> resolve n p = Some m \<Longrightarrow> wf_fs m"
proof (induction n p rule: resolve.induct)
  case (1 n)
  then show ?case by simp
next
  case (2 c s p)
  then show ?case by simp
next
  case (3 es s p)
  from "3.prems"(2) obtain k where k: "map_of es s = Some k" and r: "resolve k p = Some m"
    by (auto split: option.splits)
  from k have "(s, k) \<in> set es" by (rule map_of_SomeD)
  with "3.prems"(1) have "wf_fs k" by (auto simp: list_all_iff)
  with "3.IH" k r show ?case by simp
qed

lemma fold_set_union:
  assumes "\<And>e a. e \<in> set xs \<Longrightarrow> set (f e a) = set a \<union> S e"
  shows "set (fold f xs a) = set a \<union> (\<Union>e\<in>set xs. S e)"
  using assms
proof (induction xs arbitrary: a)
  case Nil
  then show ?case by simp
next
  case (Cons x xs)
  have "set (fold f xs (f x a)) = set (f x a) \<union> (\<Union>e\<in>set xs. S e)"
    by (rule Cons.IH) (simp add: Cons.prems)
  then show ?case by (auto simp: Cons.prems)
qed

lemma fold_distinct:
  assumes "\<And>e a. e \<in> set xs \<Longrightarrow> distinct a \<Longrightarrow> distinct (f e a)" and "distinct a"
  shows "distinct (fold f xs a)"
  using assms
  by (induction xs arbitrary: a) simp_all

lemma set_set_add: "set (set_add x xs) = insert x (set xs)"
  by (auto simp: set_add_def)

lemma distinct_set_add: "distinct xs \<Longrightarrow> distinct (set_add x xs)"
  by (simp add: set_add_def)

lemma manifests_below_Dir:
  assumes wf: "wf_fs (Dir es)"
  shows "manifests_below fs subdir (Dir es) name ign =
     (if existsSync fs (subdir @ [name]) then {subdir @ [name]} else {}) \<union>
     (\<Union>e\<in>set (filter (\<lambda>e. isDirectory (snd e) \<and> fst e \<notin> set ign) es).
        manifests_below fs (subdir @ [fst e]) (snd e) name ign)" (is "?L = ?A \<union> ?B")
proof (rule set_eqI, rule iffI)
  fix x assume "x \<in> ?L"
  then obtain ns es' where x: "x = subdir @ ns @ [name]" and ok: "list_all (\<lambda>n. n \<notin> set ign) ns"
    and r: "resolve (Dir es) ns = Some (Dir es')" and ex: "existsSync fs (subdir @ ns @ [name])"
    by (auto simp: manifests_below_def)
  show "x \<in> ?A \<union> ?B"
  proof (cases ns)
    case Nil
    with x ex show ?thesis by simp
  next
    case (Cons n ms)
    from r Cons obtain k where k: "map_of es n = Some k" and rk: "resolve k ms = Some (Dir es')"
      by (auto split: option.splits)
    from rk have "isDirectory k" by (cases k; cases ms) simp_all
    moreover from k have "(n, k) \<in> set es" by (rule map_of_SomeD)
    moreover from ok Cons have "n \<notin> set ign" and "list_all (\<lambda>n. n \<notin> set ign) ms" by simp_all
    ultimately have "(n, k) \<in> set (filter (\<lambda>e. isDirectory (snd e) \<and> fst e \<notin> set ign) es)"
      and "x \<in> manifests_below fs (subdir @ [fst (n, k)]) (snd (n, k)) name ign"
      using x ex rk Cons by (auto simp: manifests_below_def)
    then show ?thesis by blast
  qed
next
  fix x assume "x \<in> ?A \<union> ?B"
  then consider (a) "x \<in> ?A" | (b) "x \<in> ?B" by blast
  then show "x \<in> ?L"
  proof cases
    case a
    then have "x = subdir @ [] @ [name]" and "existsSync fs (subdir @ [] @ [name])"
      by (simp_all split: if_splits)
    then show ?thesis unfolding manifests_below_def by (intro CollectI exI[of _ "[]"]) simp
  next
    case b
    then obtain n k where e: "(n, k) \<in> set es" and d: "isDirectory k" and i: "n \<notin> set ign"
      and xm: "x \<in> manifests_below fs (subdir @ [n]) k name ign"
      by auto
    from xm obtain ms es' where x: "x = (subdir @ [n]) @ ms @ [name]"
      and ok: "list_all (\<lambda>n. n \<notin> set ign) ms" and r: "resolve k ms = Some (Dir es')"
      and ex: "existsSync fs ((subdir @ [n]) @ ms @ [name])"
      by (auto simp: manifests_below_def)
    from wf e have "map_of es n = Some k" by simp
    with r have "resolve (Dir es) (n # ms) = Some (Dir es')" by simp
    with x ok ex i show ?thesis
      unfolding manifests_below_def by (intro CollectI exI[of _ "n # ms"]) simp
  qed
qed

lemma traverseDirectory_set:
  assumes "wf_fs node" and "valid_name name"
  shows "set (traverseDirectory fs subdir node name ign acc) =
           set acc \<union> (if isDirectory node then manifests_below fs subdir node name ign else {})
         \<and> (distinct acc \<longrightarrow> distinct (traverseDirectory fs subdir node name ign acc))"
  using assms
proof (induction fs subdir node name ign acc rule: traverseDirectory.induct)
  case (1 fs subdir es name ign acc)
  let ?xs = "filter (\<lambda>e. isDirectory (snd e) \<and> fst e \<notin> set ign) es"
  let ?f = "\<lambda>e a. traverseDirectory fs (path_join subdir [fst e]) (snd e) name ign a"
  let ?a0 = "if existsSync fs (path_join subdir [name]) then set_add (path_join subdir [name]) acc else acc"
  have step: "set (?f e a) = set a \<union> manifests_below fs (subdir @ [fst e]) (snd e) name ign
              \<and> (distinct a \<longrightarrow> distinct (?f e a))" if e: "e \<in> set ?xs" for e a
  proof -
    from e have ein: "e \<in> set es" and d: "isDirectory (snd e)" by simp_all
    from "1.prems"(1) ein have w: "wf_fs (snd e)" and v: "valid_name (fst e)"
      by (auto simp: list_all_iff)
    from "1.IH"[OF e w "1.prems"(2), of a] d v show ?thesis
      by (simp add: path_join_valid del: path_join.simps)
  qed
  have s: "set (fold ?f ?xs ?a0) = set ?a0 \<union> (\<Union>e\<in>set ?xs. manifests_below fs (subdir @ [fst e]) (snd e) name ign)"
    by (rule fold_set_union) (use step in blast)
  have d: "distinct ?a0 \<Longrightarrow> distinct (fold ?f ?xs ?a0)"
    by (rule fold_distinct) (use step in blast)+
  have a0: "set ?a0 = set acc \<union> (if existsSync fs (subdir @ [name]) then {subdir @ [name]} else {})"
    using "1.prems"(2) by (simp add: path_join_valid set_set_add del: path_join.simps)
  have da0: "distinct acc \<Longrightarrow> distinct ?a0"
    by (simp add: distinct_set_add)
  show ?case
    using s d a0 da0 manifests_below_Dir[OF "1.prems"(1), of fs subdir name ign]
    by (simp add: Un_assoc del: path_join.simps)
next
  case (2 fs subdir c name ign acc)
  then show ?case by simp
qed


lemma packageFilepaths_set:
  assumes wf: "wf_fs fs" and r: "resolve fs root = Some (Dir es)" and v: "valid_name (filename P)"
  shows "\<exists>ps. packageFilepaths P fs root = Inr ps \<and> distinct ps \<and>
           set ps = manifests_below fs root (Dir es) (filename P) (ignoreDirectories P)"
proof -
  let ?name = "filename P" and ?ign = "ignoreDirectories P"
  let ?acc = "if existsSync fs (root @ [?name]) then set_add (root @ [?name]) [] else []"
  have w: "wf_fs (Dir es)" using wf r by (rule wf_fs_resolve)
  have pf: "packageFilepaths P fs root = Inr (traverseDirectory fs root (Dir es) ?name ?ign ?acc)"
    using r v by (simp add: packageFilepaths_def readdirSync_def path_join_valid Let_def
        del: path_join.simps traverseDirectory.simps)
  have d: "distinct ?acc" by (simp add: set_add_def)
  have sub: "set ?acc \<subseteq> manifests_below fs root (Dir es) ?name ?ign"
    by (auto simp: set_add_def manifests_below_def intro: exI[of _ "[]"])
  from traverseDirectory_set[OF w v, of fs root ?ign ?acc] d sub
  have "distinct (traverseDirectory fs root (Dir es) ?name ?ign ?acc)"
    and "set (traverseDirectory fs root (Dir es) ?name ?ign ?acc)
           = manifests_below fs root (Dir es) ?name ?ign"
    by auto
  with pf show ?thesis by simp
qed

lemma manifests_below_scanned:
  assumes r: "resolve fs root = Some node"
  shows "manifests_below fs root node name ign =
           {d @ [name] | d. scanned_dir fs root ign d \<and> existsSync fs (d @ [name])}"
  using r by (auto simp: manifests_below_def scanned_dir_def resolve_append)

text \<open>
  C3 (as amended). On a well-formed file system, with \<open>root\<close> a directory, the manifest
  scan of \<open>load\<close> returns, without duplicates, exactly the paths \<open>d/filename\<close> that exist
  where \<open>d\<close> is the root or a directory below it that is not under an ignored name. The
  root's own manifest path is in the set only when it exists.
\<close>
theorem packageFilepaths_exact:
  assumes "wf_fs fs" and "resolve fs root = Some (Dir es)" and "valid_name (filename P)"
  shows "\<exists>ps. packageFilepaths P fs root = Inr ps \<and> distinct ps \<and>
           set ps = {d @ [filename P] | d.
                       scanned_dir fs root (ignoreDirectories P) d \<and> existsSync fs (d @ [filename P])}"
  using packageFilepaths_set[OF assms] manifests_below_scanned[OF assms(2)] by simp

lemma example_fs_root:
  "resolve example_fs [''root''] =
     Some (Dir [(''package.json'', File ''{}''),
                (''node_modules'', Dir [(''dep'', Dir [(''package.json'', File ''{}'')])]),
                (''app'',
                 Dir [(''package.json'', File vue_manifest_text),
                      (''src'', Dir [(''x'', Dir [])])]),
                (''broken'', Dir [(''package.json'', File ''{'')])])"
  by (simp add: example_fs_def)

lemma wf_example_fs: "wf_fs example_fs"
  by (simp add: example_fs_def valid_name_def sep_def)

lemma example_scan:
  "packageFilepaths (PackageJSONParser jp) example_fs [''root''] =
     Inr [[''root'', ''package.json''], [''root'', ''app'', ''package.json''],
          [''root'', ''broken'', ''package.json'']]"
  by (simp add: packageFilepaths_def readdirSync_def existsSync_def set_add_def
      PackageJSONParser_def example_fs_def)

text \<open>The scan of \<open>/root\<close> in the example: \<open>node_modules\<close> is not entered.\<close>

theorem packageFilepaths_exact_witness:
  "wf_fs example_fs \<and> valid_name (filename (PackageJSONParser example_JSON_parse)) \<and>
   packageFilepaths (PackageJSONParser example_JSON_parse) example_fs [''root''] =
     Inr [[''root'', ''package.json''], [''root'', ''app'', ''package.json''],
          [''root'', ''broken'', ''package.json'']] \<and>
   {d @ [''package.json''] | d.
      scanned_dir example_fs [''root''] [''node_modules'', ''.git''] d \<and>
      existsSync example_fs (d @ [''package.json''])} =
     {[''root'', ''package.json''], [''root'', ''app'', ''package.json''],
      [''root'', ''broken'', ''package.json'']}"
proof -
  have v: "valid_name (filename (PackageJSONParser example_JSON_parse))"
    by (simp add: PackageJSONParser_def valid_name_def sep_def)
  from packageFilepaths_exact[OF wf_example_fs example_fs_root v]
  obtain ps where p: "packageFilepaths (PackageJSONParser example_JSON_parse) example_fs [''root''] = Inr ps"
    and s: "set ps = {d @ [filename (PackageJSONParser example_JSON_parse)] | d.
                scanned_dir example_fs [''root'']
                  (ignoreDirectories (PackageJSONParser example_JSON_parse)) d \<and>
                existsSync example_fs (d @ [filename (PackageJSONParser example_JSON_parse)])}"
    by blast
  from p example_scan[of example_JSON_parse]
  have "ps = [[''root'', ''package.json''], [''root'', ''app'', ''package.json''],
              [''root'', ''broken'', ''package.json'']]"
    by simp
  with s have "{d @ [''package.json''] | d.
      scanned_dir example_fs [''root''] [''node_modules'', ''.git''] d \<and>
      existsSync example_fs (d @ [''package.json''])} =
     {[''root'', ''package.json''], [''root'', ''app'', ''package.json''],
      [''root'', ''broken'', ''package.json'']}"
    by (simp add: PackageJSONParser_def)
  with wf_example_fs v example_scan[of example_JSON_parse] show ?thesis by simp
qed

text \<open>
  C3 as the specification writes it fails where the root has no manifest: the scan of
  \<open>/inner_only\<close> returns the one manifest below it, and not \<open>/inner_only/package.json\<close>.
\<close>

theorem packageFilepaths_root_counterexample:
  "\<not> (\<exists>ps. packageFilepaths (PackageJSONParser example_JSON_parse) example_fs [''inner_only''] = Inr ps \<and>
         set ps = claimed_manifest_set example_fs [''inner_only''] ''package.json''
                    (ignoreDirectories (PackageJSONParser example_JSON_parse)))"
proof
  assume "\<exists>ps. packageFilepaths (PackageJSONParser example_JSON_parse) example_fs [''inner_only''] = Inr ps \<and>
         set ps = claimed_manifest_set example_fs [''inner_only''] ''package.json''
                    (ignoreDirectories (PackageJSONParser example_JSON_parse))"
  then obtain ps where a: "packageFilepaths (PackageJSONParser example_JSON_parse) example_fs [''inner_only''] = Inr ps"
    and b: "set ps = claimed_manifest_set example_fs [''inner_only''] ''package.json''
                    (ignoreDirectories (PackageJSONParser example_JSON_parse))"
    by blast
  have e: "packageFilepaths (PackageJSONParser example_JSON_parse) example_fs [''inner_only'']
             = Inr [[''inner_only'', ''sub'', ''package.json'']]"
    by (simp add: packageFilepaths_def readdirSync_def existsSync_def set_add_def
        PackageJSONParser_def example_fs_def)
  have "[''inner_only''] @ [''package.json''] \<in>
          claimed_manifest_set example_fs [''inner_only''] ''package.json''
            (ignoreDirectories (PackageJSONParser example_JSON_parse))"
    unfolding claimed_manifest_set_def by (rule insertI1)
  then have m: "[''inner_only'', ''package.json''] \<in>
          claimed_manifest_set example_fs [''inner_only''] ''package.json''
            (ignoreDirectories (PackageJSONParser example_JSON_parse))"
    by (simp only: append_Cons append_Nil)
  from a e have "ps = [[''inner_only'', ''sub'', ''package.json'']]" by simp
  with b have "claimed_manifest_set example_fs [''inner_only''] ''package.json''
            (ignoreDirectories (PackageJSONParser example_JSON_parse)) = {[''inner_only'', ''sub'', ''package.json'']}"
    by simp
  with m have "[''inner_only'', ''package.json''] \<in> {[''inner_only'', ''sub'', ''package.json'']}"
    by (simp only:)
  then show False by simp
qed
lemma parse_files_fails:
  assumes "p \<in> set ps" and "loadFile fs p = Inr raw" and "parserRaw P raw = Inl e"
  shows "\<exists>e'. parse_files P fs ps data = Inl e'"
  using assms
proof (induction ps arbitrary: data)
  case Nil
  then show ?case by simp
next
  case (Cons q qs)
  show ?case
  proof (cases "q = p")
    case True
    with Cons.prems show ?thesis by simp
  next
    case False
    with Cons.prems have "p \<in> set qs" by simp
    from Cons.IH[OF this Cons.prems(2,3)] show ?thesis
      by (simp split: sum.splits)
  qed
qed

text \<open>
  C4. When the text of any one of the manifests found under \<open>root\<close> fails to parse,
  \<open>load\<close> returns \<open>undefined\<close> and logs the found line and the error line: nothing parsed
  from other manifests is returned, and no exception leaves \<open>load\<close>.
\<close>
theorem load_parse_failure:
  assumes "packageFilepaths P fs root = Inr ps" and "p \<in> set ps"
    and "loadFile fs p = Inr raw" and "parserRaw P raw = Inl e"
  shows "load P fs root =
           (Inr None, [PackagesFileFound (filename P), ErrorOnParsing (filename P) root])"
proof -
  from assms(2) have ne: "ps \<noteq> []" by auto
  from parse_files_fails[OF assms(2,3,4), of "[]"] obtain e' where "parse_files P fs ps [] = Inl e'" ..
  with assms(1) ne show ?thesis by (simp add: load_def)
qed

lemma example_parse_ok:
  "parse_files (PackageJSONParser example_JSON_parse) example_fs
     [[''root'', ''package.json''], [''root'', ''app'', ''package.json'']] [] = Inr [''vue-i18n'']"
  by (simp add: loadFile_def PackageJSONParser_def example_fs_def destructure_keys_def
      example_JSON_parse_def keys_of_blocks_def vue_manifest_text_def dq_def)

text \<open>
  In the example, \<open>/root/broken/package.json\<close> is malformed: \<open>vue-i18n\<close>, parsed before
  it from \<open>/root/app/package.json\<close>, is not returned.
\<close>

theorem load_parse_failure_witness:
  "packageFilepaths (PackageJSONParser example_JSON_parse) example_fs [''root''] =
     Inr [[''root'', ''package.json''], [''root'', ''app'', ''package.json''],
          [''root'', ''broken'', ''package.json'']] \<and>
   loadFile example_fs [''root'', ''broken'', ''package.json''] = Inr ''{'' \<and>
   parserRaw (PackageJSONParser example_JSON_parse) ''{'' = Inl SyntaxError \<and>
   load (PackageJSONParser example_JSON_parse) example_fs [''root''] =
     (Inr None, [PackagesFileFound ''package.json'', ErrorOnParsing ''package.json'' [''root'']])"
proof -
  have l: "loadFile example_fs [''root'', ''broken'', ''package.json''] = Inr ''{''"
    by (simp add: loadFile_def example_fs_def)
  have p: "parserRaw (PackageJSONParser example_JSON_parse) ''{'' = Inl SyntaxError"
    by (simp add: PackageJSONParser_def destructure_keys_def example_JSON_parse_def
        vue_manifest_text_def dq_def)
  have m: "[''root'', ''broken'', ''package.json''] \<in>
             set [[''root'', ''package.json''], [''root'', ''app'', ''package.json''],
                  [''root'', ''broken'', ''package.json'']]"
    by simp
  from load_parse_failure[OF example_scan m l p] example_scan[of example_JSON_parse] l p
  show ?thesis by (simp add: PackageJSONParser_def)
qed

section \<open>Properties of findNearestEnabledFrameworks\<close>

lemma split_sep_nosep: "sep \<notin> set s \<Longrightarrow> split_sep s = [s]"
  by (induction s) auto

lemma split_sep_append: "sep \<notin> set s \<Longrightarrow> split_sep (s @ sep # t) = s # split_sep t"
  by (induction s) auto

lemma split_sep_join_sep:
  "xs \<noteq> [] \<Longrightarrow> list_all (\<lambda>s. sep \<notin> set s) xs \<Longrightarrow> split_sep (join_sep xs) = xs"
proof (induction xs rule: join_sep.induct)
  case 1
  then show ?case by simp
next
  case (2 s)
  then show ?case by (simp add: split_sep_nosep)
next
  case (3 s t ss)
  then show ?case by (simp add: split_sep_append)
qed

lemma strip_common_append: "strip_common r (r @ rest) = ([], rest)"
  by (induction r) simp_all

lemma strip_common_same: "strip_common r r = ([], [])"
  by (induction r) simp_all

lemma path_join_valid_list: "list_all valid_name xs \<Longrightarrow> path_join p xs = p @ xs"
  by (induction xs arbitrary: p) (simp_all add: valid_name_def)




lemma folders_of_descendant:
  assumes "list_all valid_name rest"
  shows "folders_of root (root @ rest) = (if rest = [] then [root] else []) @ ancestors root rest"
proof (cases "rest = []")
  case True
  then show ?thesis
    by (simp add: folders_of_def path_relative_def strip_common_same ancestors_def Let_def)
next
  case False
  from assms have ns: "list_all (\<lambda>s. sep \<notin> set s) rest"
    by (simp add: list_all_iff valid_name_def)
  have sp: "split_sep (path_relative root (root @ rest)) = rest"
    using False ns by (simp add: path_relative_def strip_common_append split_sep_join_sep)
  have tk: "path_join root (take i rest) = root @ take i rest" for i
    using assms by (intro path_join_valid_list) (auto simp: list_all_iff dest: in_set_takeD)
  have up: "[0..<Suc (length rest)] = 0 # [1..<Suc (length rest)]"
    by (simp add: upt_rec)
  show ?thesis
    using False by (simp add: folders_of_def sp tk ancestors_def up Let_def del: upt_Suc)
qed





text \<open>
  When the active-file directory is the root itself, the list the source builds holds the
  root twice (the empty relative path splits into one empty part).
\<close>

lemma folders_of_root: "folders_of root root = [root, root]"
  using folders_of_descendant[of "[]" root] by (simp add: ancestors_def)

text \<open>
  When the string of \<open>current\<close> does not start with the string of \<open>root\<close>, the search
  returns the empty result and scans nothing.
\<close>

lemma findNearest_not_prefix:
  "\<not> startsWith (path_str cur) (path_str r) \<Longrightarrow>
     findNearestEnabledFrameworks E (Some r) (Some cur) = (Inr ([], None), [])"
  by (simp add: findNearestEnabledFrameworks_def)

text \<open>
  The test \<open>current.startsWith(root)\<close> compares characters, not folders: for the root
  \<open>/a/b\<close> and the folder \<open>/a/bc\<close> beside it the search runs, over \<open>/a/bc\<close>, \<open>/a\<close> and
  \<open>/a/b\<close>, in every environment.
\<close>

lemma findNearest_sibling_prefix:
  "findNearestEnabledFrameworks E (Some [''a'', ''b'']) (Some [''a'', ''bc'']) =
     nearest_loop E [[''a'', ''bc''], [''a''], [''a'', ''b'']]"
  by (simp add: findNearestEnabledFrameworks_def startsWith_def sep_def folders_of_def
      path_relative_def)

text \<open>
  C5 fails on the code. In the example, with the workspace root \<open>/root\<close> and the active
  file in \<open>/root_old\<close>, which is neither the root nor below it, the search scans
  \<open>/root_old\<close>, the first folder of its list, and returns the framework its manifest
  enables, with \<open>/root_old\<close> as the folder.
\<close>

theorem findNearest_outside_root:
  "startsWith (path_str [''root_old'']) (path_str [''root'']) \<and>
   findNearestEnabledFrameworks example_env (Some [''root'']) (Some [''root_old'']) =
     (Inr ([vue_framework], Some [''root_old'']), [[''root_old'']])"
  by (simp add: findNearestEnabledFrameworks_def startsWith_def sep_def folders_of_def
      path_relative_def example_env_def load_def packageFilepaths_def readdirSync_def
      existsSync_def set_add_def PackageJSONParser_def example_fs_def loadFile_def
      destructure_keys_def example_JSON_parse_def keys_of_blocks_def vue_manifest_text_def dq_def)

lemma example_nearest:
  "findNearestEnabledFrameworks example_env (Some [''root'']) (Some [''root'', ''app'', ''src'', ''x'']) =
     (Inr ([vue_framework], Some [''root'', ''app'']),
      [[''root'', ''app'', ''src'', ''x''], [''root'', ''app'', ''src''], [''root'', ''app'']])"
  by (simp add: findNearestEnabledFrameworks_def startsWith_def sep_def folders_of_def
      path_relative_def example_env_def load_def packageFilepaths_def readdirSync_def
      existsSync_def set_add_def PackageJSONParser_def example_fs_def loadFile_def
      destructure_keys_def example_JSON_parse_def keys_of_blocks_def vue_manifest_text_def dq_def)



text \<open>
  In the example, with the active file in the workspace root \<open>/inner_only\<close>, which enables
  nothing, the root is scanned twice.
\<close>

lemma example_root_scanned_twice:
  "findNearestEnabledFrameworks example_env (Some [''inner_only'']) (Some [''inner_only'']) =
     (Inr ([], None), [[''inner_only''], [''inner_only'']])"
  by (simp add: findNearestEnabledFrameworks_def startsWith_def sep_def folders_of_def
      path_relative_def example_env_def load_def packageFilepaths_def readdirSync_def
      existsSync_def set_add_def PackageJSONParser_def example_fs_def loadFile_def
      destructure_keys_def example_JSON_parse_def keys_of_blocks_def vue_manifest_text_def dq_def)

section \<open>Properties of update\<close>

lemma setEnabled_state: "fst (setEnabled E s v) = s\<lparr>enabled := v\<rparr>"
  by (simp add: setEnabled_def)

lemma setEnabled_effects:
  "snd (setEnabled E s v) =
     (if enabled s \<noteq> v
      then [Log (if v then NowEnabled else NowDisabled),
            SetContext (EXT_NAMESPACE E @ ''-enabled'') v, FireDidChangeEnabled v]
      else [])"
  by (simp add: setEnabled_def)

lemma settings_cong:
  assumes "enabledFrameworks a = enabledFrameworks b"
    and "currentWorkspaceFolder a = currentWorkspaceFolder b"
  shows "localesPaths E a = localesPaths E b" and "enabledParsers E a = enabledParsers E b"
    and "isValidProject E a = isValidProject E b" and "hasLocalesSet E a = hasLocalesSet E b"
    and "shouldEnabled E a = shouldEnabled E b"
  unfolding localesPaths_def enabledParsers_def parser_ids_def isValidProject_def
    hasLocalesSet_def shouldEnabled_def assms
  by (rule refl)+

lemma initLoader_fields:
  "enabled (fst (initLoader s fp r)) = enabled s"
  "enabledFrameworks (fst (initLoader s fp r)) = enabledFrameworks s"
  "currentWorkspaceFolder (fst (initLoader s fp r)) = currentWorkspaceFolder s"
  "currentWorkspaceRootPath (fst (initLoader s fp r)) = currentWorkspaceRootPath s"
  "currentActiveFilePath (fst (initLoader s fp r)) = currentActiveFilePath s"
  "nearestEnabledFrameworkPath (fst (initLoader s fp r)) = nearestEnabledFrameworkPath s"
  "cacheUsageMatchRegex (fst (initLoader s fp r)) = cacheUsageMatchRegex s"
  by (simp_all add: initLoader_def Let_def split: option.splits)

lemma initLoader_notifications: "filter is_notification (snd (initLoader s fp r)) = []"
  by (simp add: initLoader_def Let_def split: option.splits)

lemma assign_frameworks_fields:
  assumes "assign_frameworks E s = (Inr s2, sc)"
  shows "loaders s2 = loaders s" and "currentWorkspaceRootPath s2 = currentWorkspaceRootPath s"
    and "currentActiveFilePath s2 = currentActiveFilePath s"
    and "currentWorkspaceFolder s2 = currentWorkspaceFolder s"
    and "cacheUsageMatchRegex s2 = cacheUsageMatchRegex s" and "enabled s2 = enabled s"
    and "loadersCreated s2 = loadersCreated s"
    and "filter is_notification sc = []"
  using assms
  by (auto simp: assign_frameworks_def filter_empty_conv split: option.splits sum.splits prod.splits)

lemma assign_frameworks_again:
  assumes "assign_frameworks E s = (Inr s2, sc)"
    and "currentWorkspaceRootPath t = currentWorkspaceRootPath s"
    and "currentActiveFilePath t = currentActiveFilePath s"
    and "enabledFrameworks t = enabledFrameworks s2"
    and "nearestEnabledFrameworkPath t = nearestEnabledFrameworkPath s2"
  shows "assign_frameworks E t = (Inr t, sc)"
  using assms
  by (auto simp: assign_frameworks_def split: option.splits sum.splits prod.splits)

lemma recompute_Inl:
  "assign_frameworks E s = (Inl e, sc) \<Longrightarrow> recompute E s reload before = (s, before @ sc, Threw e)"
  by (simp add: recompute_def)

lemma recompute_enabled:
  assumes "assign_frameworks E s = (Inr s2, sc)" and "shouldEnabled E s2"
  shows "recompute E s reload before =
     (fst (initLoader (s2\<lparr>enabled := True\<rparr>) (currentWorkspaceRootPath s2) reload),
      before @ sc @ snd (setEnabled E s2 True)
        @ [Log (EnabledFrameworksAre (map display (enabledFrameworks s2))),
           Log (EnabledParsersAre (map parser_id (enabledParsers E s2))),
           Log BlankLine,
           SetContext ''i18n-ally.extract.autoDetect'' (extractAutoDetect (config E)),
           TelemetryTrackEnabled, TelemetryUpdateUserProperties]
        @ snd (initLoader (s2\<lparr>enabled := True\<rparr>) (currentWorkspaceRootPath s2) reload)
        @ [FireDidChangeLoader
             (loader (fst (initLoader (s2\<lparr>enabled := True\<rparr>) (currentWorkspaceRootPath s2) reload)))],
      Returned)"
proof -
  have p: "enabledParsers E (s2\<lparr>enabled := True\<rparr>) = enabledParsers E s2"
    by (rule settings_cong) simp_all
  show ?thesis
    using assms
    by (simp add: recompute_def when_enabled_def p case_prod_beta setEnabled_state)
qed

lemma recompute_disabled:
  assumes "assign_frameworks E s = (Inr s2, sc)" and "\<not> shouldEnabled E s2"
  shows "recompute E s reload before =
     (s2\<lparr>enabled := False, loaders := []\<rparr>,
      before @ sc @ snd (setEnabled E s2 False)
        @ (if \<not> cfg_disabled (config E)
           then (if \<not> isValidProject E s2 \<and> hasLocalesSet E s2 then [Log NotAValidProject] else [])
                @ (if isValidProject E s2 \<and> \<not> hasLocalesSet E s2 \<and> autoDetection (config E)
                   then [ConfigLocalesGuideAutoSet] else [])
           else [])
        @ map (\<lambda>e. LoaderDisposed (snd e)) (loaders s2)
        @ [FireDidChangeLoader None],
      Returned)"
proof -
  have p: "isValidProject E (s2\<lparr>enabled := False\<rparr>) = isValidProject E s2"
    "hasLocalesSet E (s2\<lparr>enabled := False\<rparr>) = hasLocalesSet E s2"
    by (rule settings_cong; simp)+
  show ?thesis
    using assms
    by (simp add: recompute_def when_disabled_def unloadAll_def p loader_def case_prod_beta
        setEnabled_state split: option.splits)
qed

lemma find_None_list_ex: "(find P xs = None) = (\<not> list_ex P xs)"
  by (auto simp: find_None_iff list_ex_iff)

lemma first_affected_None:
  "(first_affected E ev cs = None) = (\<not> list_ex (\<lambda>c. ev (config_key E c)) cs)"
  by (simp add: first_affected_def find_None_list_ex)

lemma scan_event_affected:
  "fst (scan_event E ev) =
     list_ex (\<lambda>c. ev (config_key E c)) (reloadConfigs (config E) @ refreshConfigs (config E))"
proof -
  have a: "first_affected E ev (reloadConfigs (config E)) = None
             \<longleftrightarrow> \<not> list_ex (\<lambda>c. ev (config_key E c)) (reloadConfigs (config E))"
    and b: "first_affected E ev (refreshConfigs (config E)) = None
             \<longleftrightarrow> \<not> list_ex (\<lambda>c. ev (config_key E c)) (refreshConfigs (config E))"
    by (rule first_affected_None)+
  show ?thesis
    using a b
    by (cases "first_affected E ev (reloadConfigs (config E))";
        cases "first_affected E ev (refreshConfigs (config E))")
       (simp_all add: scan_event_def Let_def)
qed

lemma scan_event_reload:
  "fst (snd (scan_event E ev)) = list_ex (\<lambda>c. ev (config_key E c)) (reloadConfigs (config E))"
proof -
  have a: "first_affected E ev (reloadConfigs (config E)) = None
             \<longleftrightarrow> \<not> list_ex (\<lambda>c. ev (config_key E c)) (reloadConfigs (config E))"
    by (rule first_affected_None)
  show ?thesis
    using a
    by (cases "first_affected E ev (reloadConfigs (config E))") (simp_all add: scan_event_def Let_def)
qed

lemma scan_event_notifications: "filter is_notification (snd (snd (scan_event E ev))) = []"
  by (simp add: scan_event_def Let_def split: option.splits)

lemma scan_event_unrelated:
  assumes "unrelated E ev"
  shows "scan_event E ev = (False, False, [])"
proof -
  from assms have "first_affected E ev (reloadConfigs (config E)) = None"
    and "first_affected E ev (refreshConfigs (config E)) = None"
    and "first_affected E ev (usageRefreshConfigs (config E)) = None"
    by (simp_all add: first_affected_None unrelated_def)
  then show ?thesis by (simp add: scan_event_def)
qed

lemma update_recomputes:
  assumes "recomputes E args"
  shows "\<exists>before. filter is_notification before = [] \<and>
           update E args s = recompute E (resetCache s) (forces_reload E args) before"
proof (cases "event args")
  case None
  then have "update E args s = recompute E (resetCache s) (forces_reload E args) []"
    by (simp add: update_def forces_reload_def)
  then show ?thesis by (intro exI[of _ "[]"]) simp
next
  case (Some ev)
  let ?b = "snd (snd (scan_event E ev))
            @ (if fst (snd (scan_event E ev)) then [Log ReloadingLoader] else [])"
  from assms Some have "fst (scan_event E ev)"
    by (simp add: recomputes_def scan_event_affected)
  with Some have "update E args s = recompute E (resetCache s) (forces_reload E args) ?b"
    by (simp add: update_def forces_reload_def case_prod_beta scan_event_reload)
  moreover have "filter is_notification ?b = []"
    by (simp add: scan_event_notifications)
  ultimately show ?thesis by blast
qed

lemma update_skips:
  assumes "\<not> recomputes E args"
  shows "\<exists>es. filter is_notification es = [] \<and> update E args s = (resetCache s, es, Returned)"
proof -
  from assms obtain ev where ev: "event args = Some ev" and n: "\<not> fst (scan_event E ev)"
    by (auto simp: recomputes_def scan_event_affected split: option.splits)
  then have "update E args s = (resetCache s, snd (snd (scan_event E ev)), Returned)"
    by (simp add: update_def case_prod_beta)
  then show ?thesis using scan_event_notifications by blast
qed

lemma recompute_cases:
  assumes "recompute E s reload before = (s', effs, Returned)"
  obtains (enabled) s2 sc where "assign_frameworks E s = (Inr s2, sc)" and "shouldEnabled E s2"
      and "s' = fst (initLoader (s2\<lparr>enabled := True\<rparr>) (currentWorkspaceRootPath s2) reload)"
      and "filter is_notification effs =
             filter is_notification (before @ snd (setEnabled E s2 True)) @ [FireDidChangeLoader (loader s')]"
    | (disabled) s2 sc where "assign_frameworks E s = (Inr s2, sc)" and "\<not> shouldEnabled E s2"
      and "s' = s2\<lparr>enabled := False, loaders := []\<rparr>"
      and "set (map (\<lambda>e. LoaderDisposed (snd e)) (loaders s2)) \<subseteq> set effs"
      and "filter is_notification effs =
             filter is_notification (before @ snd (setEnabled E s2 False)) @ [FireDidChangeLoader (loader s')]"
proof (cases "fst (assign_frameworks E s)")
  case (Inl e)
  then have "assign_frameworks E s = (Inl e, snd (assign_frameworks E s))"
    by (simp add: prod_eq_iff)
  from recompute_Inl[OF this] assms show ?thesis by simp
next
  case (Inr s2)
  define sc where "sc = snd (assign_frameworks E s)"
  have p: "assign_frameworks E s = (Inr s2, sc)" using Inr by (simp add: prod_eq_iff sc_def)
  have nsc: "filter is_notification sc = []" using p by (rule assign_frameworks_fields)
  show ?thesis
  proof (cases "shouldEnabled E s2")
    case True
    from assms recompute_enabled[OF p True, of reload before]
    have "s' = fst (initLoader (s2\<lparr>enabled := True\<rparr>) (currentWorkspaceRootPath s2) reload)"
      and "filter is_notification effs =
             filter is_notification (before @ snd (setEnabled E s2 True)) @ [FireDidChangeLoader (loader s')]"
      using nsc by (auto simp: initLoader_notifications)
    with p True show ?thesis by (rule enabled)
  next
    case False
    let ?guide = "if \<not> cfg_disabled (config E)
           then (if \<not> isValidProject E s2 \<and> hasLocalesSet E s2 then [Log NotAValidProject] else [])
                @ (if isValidProject E s2 \<and> \<not> hasLocalesSet E s2 \<and> autoDetection (config E)
                   then [ConfigLocalesGuideAutoSet] else [])
           else []"
    let ?disp = "map (\<lambda>e. LoaderDisposed (snd e)) (loaders s2)"
    from assms recompute_disabled[OF p False, of reload before]
    have s': "s' = s2\<lparr>enabled := False, loaders := []\<rparr>"
      and effs: "effs = before @ sc @ snd (setEnabled E s2 False) @ ?guide @ ?disp
                   @ [FireDidChangeLoader None]"
      by simp_all
    have sub: "set ?disp \<subseteq> set effs"
      unfolding effs by (simp only: set_append) blast
    have l: "loader s' = None"
      by (simp add: s' loader_def split: option.splits)
    have g: "filter is_notification ?guide = []" by simp
    have d: "filter is_notification ?disp = []" by (simp add: filter_empty_conv)
    have "filter is_notification effs =
             filter is_notification (before @ snd (setEnabled E s2 False)) @ [FireDidChangeLoader (loader s')]"
      unfolding effs l by (simp only: filter_append g d nsc) simp
    with p False s' sub show ?thesis by (rule disabled)
  qed
qed

lemma recompute_invariant:
  assumes "recompute E s reload before = (s', effs, Returned)"
  shows "enabled s' = shouldEnabled E s'"
  using assms
proof (cases rule: recompute_cases)
  case (enabled s2 sc)
  have "shouldEnabled E s' = shouldEnabled E s2"
    by (rule settings_cong) (simp_all add: enabled(3) initLoader_fields)
  with enabled show ?thesis by (simp add: initLoader_fields)
next
  case (disabled s2 sc)
  have "shouldEnabled E s' = shouldEnabled E s2"
    by (rule settings_cong) (simp_all add: disabled(3))
  with disabled show ?thesis by simp
qed

text \<open>
  C1 (as amended). After a call of \<open>update\<close> that gets past the test of \<open>affected\<close> and
  returns, the enabled state is the conjunction: not disabled by the configuration, at
  least one enabled framework, at least one enabled parser, and locale paths that are
  defined. In particular the state is disabled when the locale paths are undefined. A
  call that the test cuts short leaves the enabled state as it was.
\<close>

theorem update_enabled_state:
  assumes "update E args s = (s', effs, Returned)"
  shows "(recomputes E args \<longrightarrow>
            enabled s' =
              (\<not> cfg_disabled (config E) \<and> length (enabledFrameworks s') > 0
               \<and> length (enabledParsers E s') > 0 \<and> localesPaths E s' \<noteq> None)
            \<and> (localesPaths E s' = None \<longrightarrow> \<not> enabled s'))
       \<and> (\<not> recomputes E args \<longrightarrow> enabled s' = enabled s)"
proof (cases "recomputes E args")
  case True
  from update_recomputes[OF True, of s] assms
  obtain before where "recompute E (resetCache s) (forces_reload E args) before = (s', effs, Returned)"
    by auto
  then have "enabled s' = shouldEnabled E s'" by (rule recompute_invariant)
  with True show ?thesis
    by (auto simp: shouldEnabled_def isValidProject_def hasLocalesSet_def split: option.splits)
next
  case False
  from update_skips[OF False, of s] assms have "s' = resetCache s" by auto
  with False show ?thesis by (simp add: resetCache_def)
qed

text \<open>
  C8. When a call of \<open>update\<close> computes the disabled state, the registry of loaders is
  empty afterwards and every loader it held, whatever its workspace root, has been
  disposed.
\<close>

theorem update_disabled_unloads_all:
  assumes "recomputes E args" and "update E args s = (s', effs, Returned)" and "\<not> enabled s'"
  shows "loaders s' = [] \<and> list_all (\<lambda>l. LoaderDisposed l \<in> set effs) (map snd (loaders s))"
proof -
  from update_recomputes[OF assms(1), of s] assms(2)
  obtain before where "recompute E (resetCache s) (forces_reload E args) before = (s', effs, Returned)"
    by auto
  then show ?thesis
  proof (cases rule: recompute_cases)
    case (enabled s2 sc)
    with assms(3) show ?thesis by (simp add: initLoader_fields)
  next
    case (disabled s2 sc)
    have "loaders s2 = loaders s"
      using assign_frameworks_fields(1)[OF disabled(1)] by (simp add: resetCache_def)
    with disabled(3,4) show ?thesis by (auto simp: list_all_iff)
  qed
qed

lemma update_unrelated:
  assumes "event args = Some ev" and "unrelated E ev"
  shows "update E args s = (s\<lparr>cacheUsageMatchRegex := Map.empty\<rparr>, [], Returned)"
  using assms by (simp add: update_def scan_event_unrelated resetCache_def)

text \<open>
  C6 (as amended). A call of \<open>update\<close> for an event that affects no option of the three
  lists does nothing but clear the usage-match cache: the enabled state, the enabled
  frameworks, the nearest folder and the loaders are as before, nothing is logged,
  scanned or fired, and the cache is empty afterwards.
\<close>

theorem update_unrelated_event:
  assumes "event args = Some ev" and "unrelated E ev"
  shows "update E args s = (s\<lparr>cacheUsageMatchRegex := Map.empty\<rparr>, [], Returned)
       \<and> enabled (fst (update E args s)) = enabled s
       \<and> enabledFrameworks (fst (update E args s)) = enabledFrameworks s
       \<and> nearestEnabledFrameworkPath (fst (update E args s)) = nearestEnabledFrameworkPath s
       \<and> loaders (fst (update E args s)) = loaders s
       \<and> cacheUsageMatchRegex (fst (update E args s)) = Map.empty"
  using update_unrelated[OF assms, of s] by simp

lemma enabled_notification_is_notification:
  "filter is_notification es = [] \<Longrightarrow> filter is_enabled_notification es = []"
proof -
  have "is_enabled_notification e \<Longrightarrow> is_notification e" for e by (cases e) simp_all
  then show "filter is_notification es = [] \<Longrightarrow> filter is_enabled_notification es = []"
    by (auto simp: filter_empty_conv)
qed

lemma initLoader_again:
  "fst (initLoader (fst (initLoader s fp r)) fp False) = fst (initLoader s fp r)"
  by (cases fp) (simp_all add: initLoader_def Let_def update_conv')

lemma setEnabled_same: "enabled s = v \<Longrightarrow> snd (setEnabled E s v) = []"
  by (simp add: setEnabled_def)

lemma recompute_twice:
  assumes "recompute E s r b1 = (s1, e1, Returned)" and "filter is_notification b2 = []"
  shows "\<exists>s2 e2. recompute E s1 r b2 = (s2, e2, Returned)
           \<and> (if enabled s1 then s2 = fst (initLoader s1 (currentWorkspaceRootPath s1) r) else s2 = s1)
           \<and> (\<not> r \<longrightarrow> s2 = s1)
           \<and> filter is_notification e2 = [FireDidChangeLoader (loader s2)]"
  using assms(1)
proof (cases rule: recompute_cases)
  case (enabled t sc)
  let ?t = "t\<lparr>enabled := True\<rparr>"
  have s1: "s1 = fst (initLoader ?t (currentWorkspaceRootPath ?t) r)"
    using enabled(3) by simp
  have en: "enabled s1" by (simp add: s1 initLoader_fields)
  have a: "assign_frameworks E s1 = (Inr s1, sc)"
    using enabled(1)
    by (rule assign_frameworks_again)
       (simp_all add: s1 initLoader_fields assign_frameworks_fields[OF enabled(1)])
  have sh: "shouldEnabled E s1 = shouldEnabled E t"
    by (rule settings_cong) (simp_all add: s1 initLoader_fields)
  with enabled(2) have sh1: "shouldEnabled E s1" by simp
  have id: "s1\<lparr>enabled := True\<rparr> = s1" using en by simp
  let ?s2 = "fst (initLoader s1 (currentWorkspaceRootPath s1) r)"
  obtain e2 where r2: "recompute E s1 r b2 = (?s2, e2, Returned)"
    using recompute_enabled[OF a sh1, of r b2] by (simp add: id)
  have root: "currentWorkspaceRootPath s1 = currentWorkspaceRootPath ?t"
    by (simp add: s1 initLoader_fields)
  have same: "?s2 = s1" if nr: "\<not> r"
  proof -
    have e: "fst (initLoader ?t (currentWorkspaceRootPath ?t) False) = s1"
      using s1 nr by simp
    have "fst (initLoader s1 (currentWorkspaceRootPath ?t) False) = s1"
      using initLoader_again[of ?t "currentWorkspaceRootPath ?t" False] by (simp only: e)
    then show ?thesis using nr root by simp
  qed
  from r2 have "filter is_notification e2 = [FireDidChangeLoader (loader ?s2)]"
  proof (cases rule: recompute_cases)
    case (enabled u sc')
    with a have "u = s1" by simp
    with enabled(4) assms(2) en show ?thesis by (simp add: setEnabled_same)
  next
    case (disabled u sc')
    with a sh1 show ?thesis by simp
  qed
  with r2 en same show ?thesis by auto
next
  case (disabled t sc)
  have s1: "s1 = t\<lparr>enabled := False, loaders := []\<rparr>" by (rule disabled(3))
  have en: "\<not> enabled s1" by (simp add: s1)
  have a: "assign_frameworks E s1 = (Inr s1, sc)"
    using disabled(1)
    by (rule assign_frameworks_again)
       (simp_all add: s1 assign_frameworks_fields[OF disabled(1)])
  have sh: "shouldEnabled E s1 = shouldEnabled E t"
    by (rule settings_cong) (simp_all add: s1)
  with disabled(2) have sh1: "\<not> shouldEnabled E s1" by simp
  have id: "s1\<lparr>enabled := False, loaders := []\<rparr> = s1" by (simp add: s1)
  obtain e2 where r2: "recompute E s1 r b2 = (s1, e2, Returned)"
    using recompute_disabled[OF a sh1, of r b2] by (simp add: id)
  from r2 have "filter is_notification e2 = [FireDidChangeLoader (loader s1)]"
  proof (cases rule: recompute_cases)
    case (enabled u sc')
    with a sh1 show ?thesis by simp
  next
    case (disabled u sc')
    with a have "u = s1" by simp
    with disabled(5) assms(2) en show ?thesis by (simp add: setEnabled_same)
  qed
  with r2 en show ?thesis by auto
qed

lemma recompute_cache:
  assumes "recompute E s r b = (s', e, c)"
  shows "cacheUsageMatchRegex s' = cacheUsageMatchRegex s"
proof (cases "fst (assign_frameworks E s)")
  case (Inl err)
  then have "assign_frameworks E s = (Inl err, snd (assign_frameworks E s))"
    by (simp add: prod_eq_iff)
  from recompute_Inl[OF this] assms show ?thesis by simp
next
  case (Inr t)
  define sc where "sc = snd (assign_frameworks E s)"
  have p: "assign_frameworks E s = (Inr t, sc)" using Inr by (simp add: prod_eq_iff sc_def)
  have c: "cacheUsageMatchRegex t = cacheUsageMatchRegex s"
    using p by (rule assign_frameworks_fields)
  show ?thesis
  proof (cases "shouldEnabled E t")
    case True
    from assms recompute_enabled[OF p True, of r b] c show ?thesis
      by (auto simp: initLoader_fields)
  next
    case False
    from assms recompute_disabled[OF p False, of r b] c show ?thesis by auto
  qed
qed

lemma resetCache_idem: "cacheUsageMatchRegex s = Map.empty \<Longrightarrow> resetCache s = s"
  by (simp add: resetCache_def)

text \<open>
  C7 (as amended). A second call of \<open>update\<close> with the same arguments in the same
  environment returns, leaves the enabled state, the enabled frameworks, the nearest
  folder and the (empty) usage-match cache as the first call left them, and leaves the
  whole state so unless the event forces a reload. It fires no enabled-changed event. It
  still fires the loader-changed event, once, unless the test of \<open>affected\<close> cuts it
  short.
\<close>

theorem update_twice:
  assumes "update E args s = (s1, e1, Returned)"
  shows "\<exists>s2 e2. update E args s1 = (s2, e2, Returned)
           \<and> enabled s2 = enabled s1
           \<and> enabledFrameworks s2 = enabledFrameworks s1
           \<and> nearestEnabledFrameworkPath s2 = nearestEnabledFrameworkPath s1
           \<and> cacheUsageMatchRegex s2 = cacheUsageMatchRegex s1
           \<and> (\<not> forces_reload E args \<longrightarrow> s2 = s1)
           \<and> filter is_enabled_notification e2 = []
           \<and> filter is_notification e2 =
               (if recomputes E args then [FireDidChangeLoader (loader s2)] else [])"
proof (cases "recomputes E args")
  case False
  from update_skips[OF False, of s] assms have s1: "s1 = resetCache s" by auto
  then have "resetCache s1 = s1" by (simp add: resetCache_def)
  with update_skips[OF False, of s1] obtain es where "filter is_notification es = []"
    and "update E args s1 = (s1, es, Returned)" by auto
  with False show ?thesis by (auto dest: enabled_notification_is_notification)
next
  case True
  from update_recomputes[OF True, of s] assms obtain b1
    where r1: "recompute E (resetCache s) (forces_reload E args) b1 = (s1, e1, Returned)" by auto
  have "cacheUsageMatchRegex s1 = Map.empty"
    using recompute_cache[OF r1] by (simp add: resetCache_def)
  then have rs: "resetCache s1 = s1" by (rule resetCache_idem)
  from update_recomputes[OF True, of s1] rs obtain b2
    where nb: "filter is_notification b2 = []"
      and u2: "update E args s1 = recompute E s1 (forces_reload E args) b2" by auto
  from recompute_twice[OF r1 nb] u2 obtain s2 e2
    where r2: "update E args s1 = (s2, e2, Returned)"
      and st: "if enabled s1 then s2 = fst (initLoader s1 (currentWorkspaceRootPath s1) (forces_reload E args)) else s2 = s1"
      and same: "\<not> forces_reload E args \<longrightarrow> s2 = s1"
      and nt: "filter is_notification e2 = [FireDidChangeLoader (loader s2)]"
    by auto
  from st have f: "enabled s2 = enabled s1" "enabledFrameworks s2 = enabledFrameworks s1"
    "nearestEnabledFrameworkPath s2 = nearestEnabledFrameworkPath s1"
    "cacheUsageMatchRegex s2 = cacheUsageMatchRegex s1"
    by (auto simp: initLoader_fields split: if_splits)
  have "filter is_enabled_notification e2 = filter is_enabled_notification (filter is_notification e2)"
  proof -
    have "is_enabled_notification e \<Longrightarrow> is_notification e" for e by (cases e) simp_all
    then show ?thesis by (auto simp: filter_filter intro: filter_cong)
  qed
  with nt have "filter is_enabled_notification e2 = []" by simp
  with r2 f same nt True show ?thesis by simp
qed

text \<open>
  \<open>update\<close> returns when the configuration names the frameworks or when the test of
  \<open>affected\<close> cuts the call short. Otherwise the nearest-folder search runs: it throws
  when the active file's folder is undefined, and lets out what a scan throws.
\<close>

lemma update_returns:
  assumes "cfg_enabledFrameworks (config E) \<noteq> None \<or> \<not> recomputes E args"
  shows "\<exists>s' effs. update E args s = (s', effs, Returned)"
proof (cases "recomputes E args")
  case False
  from update_skips[OF False, of s] show ?thesis by blast
next
  case True
  with assms obtain ids where "cfg_enabledFrameworks (config E) = Some ids" by auto
  then obtain t where a: "assign_frameworks E (resetCache s) = (Inr t, [])"
    by (simp add: assign_frameworks_def)
  from update_recomputes[OF True, of s] obtain b
    where u: "update E args s = recompute E (resetCache s) (forces_reload E args) b" by blast
  show ?thesis
    using recompute_enabled[OF a, of "forces_reload E args" b]
      recompute_disabled[OF a, of "forces_reload E args" b] u
    by (cases "shouldEnabled E t") auto
qed

lemma update_throws_without_active_file:
  assumes "recomputes E args" and "cfg_enabledFrameworks (config E) = None"
    and "currentActiveFilePath s = None"
  shows "\<exists>logged. update E args s = (resetCache s, logged, Threw TypeError)"
proof -
  from assms(2,3) have "assign_frameworks E (resetCache s) = (Inl TypeError, [])"
    by (simp add: assign_frameworks_def findNearestEnabledFrameworks_def resetCache_def)
  then have "recompute E (resetCache s) r b = (resetCache s, b @ [], Threw TypeError)" for r b
    by (rule recompute_Inl)
  with update_recomputes[OF assms(1), of s] show ?thesis by auto
qed

section \<open>The example, evaluated\<close>

lemma example_env_fields:
  "config example_env = example_config"
  "EXT_NAMESPACE example_env = ''i18n-ally''"
  "AvailableParsers example_env =
     [\<lparr> parser_id = ''json'', supportedExts = ''json'' \<rparr>,
      \<lparr> parser_id = ''yaml'', supportedExts = ''ya?ml'' \<rparr>]"
  "DefaultEnabledParsers example_env = [''json'', ''yaml'', ''json5'']"
  "normalizeUsageMatchRegex example_env = (\<lambda>sources. sources)"
  by (simp_all add: example_env_def)

lemma bare_env_fields:
  "config bare_env = example_config"
  "EXT_NAMESPACE bare_env = ''i18n-ally''"
  "AvailableParsers bare_env =
     [\<lparr> parser_id = ''json'', supportedExts = ''json'' \<rparr>,
      \<lparr> parser_id = ''yaml'', supportedExts = ''ya?ml'' \<rparr>]"
  "DefaultEnabledParsers bare_env = [''json'', ''yaml'', ''json5'']"
  by (simp_all add: bare_env_def example_env_def)

lemma bare_nearest:
  "findNearestEnabledFrameworks bare_env (Some [''root'']) (Some [''root'', ''app'', ''src'', ''x'']) =
     (Inr ([vue_framework\<lparr> perferredLocalePaths := None \<rparr>], Some [''root'', ''app'']),
      [[''root'', ''app'', ''src'', ''x''], [''root'', ''app'', ''src''], [''root'', ''app'']])"
  by (simp add: findNearestEnabledFrameworks_def startsWith_def sep_def folders_of_def
      path_relative_def bare_env_def example_env_def load_def packageFilepaths_def readdirSync_def
      existsSync_def set_add_def PackageJSONParser_def example_fs_def loadFile_def
      destructure_keys_def example_JSON_parse_def keys_of_blocks_def vue_manifest_text_def dq_def)

lemma example_update:
  "update example_env no_event ready_state =
     (enabled_state,
      [ScanPackages [''root'', ''app'', ''src'', ''x''],
       ScanPackages [''root'', ''app'', ''src''],
       ScanPackages [''root'', ''app''],
       Log NowEnabled, SetContext ''i18n-ally-enabled'' True, FireDidChangeEnabled True,
       Log (EnabledFrameworksAre [''Vue'']), Log (EnabledParsersAre [''json'', ''yaml'']),
       Log BlankLine, SetContext ''i18n-ally.extract.autoDetect'' False,
       TelemetryTrackEnabled, TelemetryUpdateUserProperties, CheckNotification,
       LoaderCreated \<lparr> loader_root = [''root''], loader_serial = 0 \<rparr>,
       FireDidChangeLoader (Some \<lparr> loader_root = [''root''], loader_serial = 0 \<rparr>)],
      Returned)"
  by (simp add: update_def no_event_def resetCache_def ready_state_def Global_initial_def
      recompute_def assign_frameworks_def example_env_fields example_config_def example_nearest
      shouldEnabled_def isValidProject_def hasLocalesSet_def localesPaths_def enabledParsers_def
      parser_ids_def or_empty_def vue_framework_def setEnabled_def when_enabled_def
      initLoader_def loader_def enabled_state_def Let_def)

lemma example_update_again:
  "update example_env no_event enabled_state =
     (enabled_state,
      [ScanPackages [''root'', ''app'', ''src'', ''x''],
       ScanPackages [''root'', ''app'', ''src''],
       ScanPackages [''root'', ''app''],
       Log (EnabledFrameworksAre [''Vue'']), Log (EnabledParsersAre [''json'', ''yaml'']),
       Log BlankLine, SetContext ''i18n-ally.extract.autoDetect'' False,
       TelemetryTrackEnabled, TelemetryUpdateUserProperties, CheckNotification,
       FireDidChangeLoader (Some \<lparr> loader_root = [''root''], loader_serial = 0 \<rparr>)],
      Returned)"
  by (simp add: update_def no_event_def resetCache_def ready_state_def Global_initial_def
      recompute_def assign_frameworks_def example_env_fields example_config_def example_nearest
      shouldEnabled_def isValidProject_def hasLocalesSet_def localesPaths_def enabledParsers_def
      parser_ids_def or_empty_def vue_framework_def setEnabled_def when_enabled_def
      initLoader_def loader_def enabled_state_def Let_def)

lemma bare_update:
  "update bare_env no_event ready_state =
     (bare_state,
      [ScanPackages [''root'', ''app'', ''src'', ''x''],
       ScanPackages [''root'', ''app'', ''src''],
       ScanPackages [''root'', ''app''],
       ConfigLocalesGuideAutoSet,
       FireDidChangeLoader None],
      Returned)"
  by (simp add: update_def no_event_def resetCache_def ready_state_def Global_initial_def
      recompute_def assign_frameworks_def bare_env_fields example_config_def bare_nearest
      shouldEnabled_def isValidProject_def hasLocalesSet_def localesPaths_def enabledParsers_def
      parser_ids_def or_empty_def vue_framework_def setEnabled_def when_disabled_def
      unloadAll_def loader_def bare_state_def Let_def)

section \<open>The properties of update and of the search, in the example\<close>

lemma disabled_env_fields:
  "config disabled_env = example_config\<lparr> cfg_disabled := True \<rparr>"
  "EXT_NAMESPACE disabled_env = ''i18n-ally''"
  by (simp_all add: disabled_env_def example_env_def)

lemma disabled_nearest:
  "findNearestEnabledFrameworks disabled_env (Some [''root'']) (Some [''root'', ''app'', ''src'', ''x'']) =
     (Inr ([vue_framework], Some [''root'', ''app'']),
      [[''root'', ''app'', ''src'', ''x''], [''root'', ''app'', ''src''], [''root'', ''app'']])"
  by (simp add: findNearestEnabledFrameworks_def startsWith_def sep_def folders_of_def
      path_relative_def disabled_env_def example_env_def load_def packageFilepaths_def readdirSync_def
      existsSync_def set_add_def PackageJSONParser_def example_fs_def loadFile_def
      destructure_keys_def example_JSON_parse_def keys_of_blocks_def vue_manifest_text_def dq_def)

lemma disabled_update:
  "update disabled_env no_event two_roots_state =
     (two_roots_state\<lparr> enabled := False, loaders := [] \<rparr>,
      [ScanPackages [''root'', ''app'', ''src'', ''x''],
       ScanPackages [''root'', ''app'', ''src''],
       ScanPackages [''root'', ''app''],
       Log NowDisabled, SetContext ''i18n-ally-enabled'' False, FireDidChangeEnabled False,
       LoaderDisposed \<lparr> loader_root = [''other''], loader_serial = 0 \<rparr>,
       LoaderDisposed \<lparr> loader_root = [''root''], loader_serial = 1 \<rparr>,
       FireDidChangeLoader None],
      Returned)"
  by (simp add: update_def no_event_def resetCache_def ready_state_def Global_initial_def
      recompute_def assign_frameworks_def disabled_env_fields example_config_def disabled_nearest
      shouldEnabled_def isValidProject_def hasLocalesSet_def
      setEnabled_def when_disabled_def unloadAll_def loader_def enabled_state_def
      two_roots_state_def Let_def)

lemma recomputes_no_event: "recomputes E no_event"
  by (simp add: recomputes_def no_event_def)

lemma unrelated_other_event: "unrelated example_env (\<lambda>key. key = ''editor.fontSize'')"
  by (simp add: unrelated_def example_env_fields example_config_def config_key_def)

lemma cached_state_eq:
  "cached_state = enabled_state\<lparr> cacheUsageMatchRegex := [''vue_undefined'' \<mapsto> [''vue-usage'']] \<rparr>"
  by (simp add: cached_state_def getUsageMatchRegex_def example_env_fields example_config_def
      enabled_state_def ready_state_def Global_initial_def vue_framework_def Let_def)

lemma not_recomputes_other_event: "\<not> recomputes example_env other_event"
  by (simp add: recomputes_def other_event_def example_env_fields example_config_def
      config_key_def)

lemma example_update_other_event:
  "update example_env other_event cached_state = (enabled_state, [], Returned)"
proof -
  have e: "event other_event = Some (\<lambda>key. key = ''editor.fontSize'')"
    by (simp add: other_event_def)
  have "cached_state\<lparr>cacheUsageMatchRegex := Map.empty\<rparr> = enabled_state"
    by (simp add: cached_state_eq enabled_state_def ready_state_def Global_initial_def)
  with update_unrelated[OF e unrelated_other_event, of cached_state] show ?thesis by simp
qed

text \<open>
  C1 in the example whose framework prefers no locale paths: a framework and two parsers
  are enabled, the locale paths are undefined, and the state is disabled. And a call for
  another option's event, cut short in an enabled state, leaves it enabled.
\<close>

theorem update_enabled_state_witness:
  "recomputes bare_env no_event \<and>
   update bare_env no_event ready_state =
     (bare_state,
      [ScanPackages [''root'', ''app'', ''src'', ''x''],
       ScanPackages [''root'', ''app'', ''src''],
       ScanPackages [''root'', ''app''],
       ConfigLocalesGuideAutoSet,
       FireDidChangeLoader None],
      Returned) \<and>
   length (enabledFrameworks bare_state) > 0 \<and>
   length (enabledParsers bare_env bare_state) > 0 \<and>
   localesPaths bare_env bare_state = None \<and>
   \<not> enabled bare_state \<and>
   \<not> recomputes example_env other_event \<and>
   update example_env other_event cached_state = (enabled_state, [], Returned) \<and>
   enabled cached_state \<and>
   enabled enabled_state"
proof -
  have l: "localesPaths bare_env bare_state = None"
    by (simp add: localesPaths_def bare_state_def ready_state_def Global_initial_def
        bare_env_fields example_config_def or_empty_def vue_framework_def)
  have p: "length (enabledParsers bare_env bare_state) > 0"
    by (simp add: enabledParsers_def parser_ids_def bare_state_def ready_state_def
        Global_initial_def bare_env_fields example_config_def or_empty_def vue_framework_def)
  have f: "length (enabledFrameworks bare_state) > 0"
    by (simp add: bare_state_def)
  from update_enabled_state[OF bare_update] recomputes_no_event[of bare_env] l
  have d: "\<not> enabled bare_state" by simp
  have "enabled cached_state" by (simp add: cached_state_eq enabled_state_def)
  moreover from this update_enabled_state[OF example_update_other_event] not_recomputes_other_event
  have "enabled enabled_state" by simp
  ultimately show ?thesis
    using recomputes_no_event[of bare_env] bare_update l p f d not_recomputes_other_event
      example_update_other_event
    by simp
qed

lemma configured_nearest:
  "findNearestEnabledFrameworks configured_env (Some [''root'']) (Some [''root'', ''app'', ''src'', ''x'']) =
     (Inr ([vue_framework\<lparr> perferredLocalePaths := None \<rparr>], Some [''root'', ''app'']),
      [[''root'', ''app'', ''src'', ''x''], [''root'', ''app'', ''src''], [''root'', ''app'']])"
  by (simp add: findNearestEnabledFrameworks_def startsWith_def sep_def folders_of_def
      path_relative_def configured_env_def bare_env_def example_env_def load_def
      packageFilepaths_def readdirSync_def
      existsSync_def set_add_def PackageJSONParser_def example_fs_def loadFile_def
      destructure_keys_def example_JSON_parse_def keys_of_blocks_def vue_manifest_text_def dq_def)

lemma configured_env_fields:
  "config configured_env =
     example_config\<lparr> cfg_localesPaths := Some [''locales''],
                         reloadConfigs := [''enabledFrameworks'', ''enabledParsers''] \<rparr>"
  "EXT_NAMESPACE configured_env = ''i18n-ally''"
  "AvailableParsers configured_env =
     [\<lparr> parser_id = ''json'', supportedExts = ''json'' \<rparr>,
      \<lparr> parser_id = ''yaml'', supportedExts = ''ya?ml'' \<rparr>]"
  "DefaultEnabledParsers configured_env = [''json'', ''yaml'', ''json5'']"
  by (simp_all add: configured_env_def bare_env_def example_env_def)

lemma unconfigured_env_fields:
  "config unconfigured_env =
     example_config\<lparr> cfg_localesPaths := None,
                         reloadConfigs := [''enabledFrameworks'', ''enabledParsers''] \<rparr>"
  "EXT_NAMESPACE unconfigured_env = ''i18n-ally''"
  by (simp_all add: unconfigured_env_def bare_env_def example_env_def)

lemma configured_update:
  "update configured_env no_event ready_state =
     (stale_state,
      [ScanPackages [''root'', ''app'', ''src'', ''x''],
       ScanPackages [''root'', ''app'', ''src''],
       ScanPackages [''root'', ''app''],
       Log NowEnabled, SetContext ''i18n-ally-enabled'' True, FireDidChangeEnabled True,
       Log (EnabledFrameworksAre [''Vue'']), Log (EnabledParsersAre [''json'', ''yaml'']),
       Log BlankLine, SetContext ''i18n-ally.extract.autoDetect'' False,
       TelemetryTrackEnabled, TelemetryUpdateUserProperties, CheckNotification,
       LoaderCreated \<lparr> loader_root = [''root''], loader_serial = 0 \<rparr>,
       FireDidChangeLoader (Some \<lparr> loader_root = [''root''], loader_serial = 0 \<rparr>)],
      Returned)"
  by (simp add: update_def no_event_def resetCache_def ready_state_def Global_initial_def
      recompute_def assign_frameworks_def configured_env_fields example_config_def configured_nearest
      shouldEnabled_def isValidProject_def hasLocalesSet_def localesPaths_def enabledParsers_def
      parser_ids_def or_empty_def vue_framework_def setEnabled_def when_enabled_def
      initLoader_def loader_def enabled_state_def stale_state_def Let_def)

text \<open>
  C1 as stated fails for a call that the test of \<open>affected\<close> cuts short. \<open>update\<close> enables
  the extension while the locale paths are configured. The option is then removed; its
  key is in neither the reload list nor the refresh list of this configuration, so the
  call for that event returns at the test: the state stays enabled, with a framework and
  parsers, while the locale paths are undefined.
\<close>

theorem update_enabled_state_counterexample:
  "update configured_env no_event ready_state =
     (stale_state,
      [ScanPackages [''root'', ''app'', ''src'', ''x''],
       ScanPackages [''root'', ''app'', ''src''],
       ScanPackages [''root'', ''app''],
       Log NowEnabled, SetContext ''i18n-ally-enabled'' True, FireDidChangeEnabled True,
       Log (EnabledFrameworksAre [''Vue'']), Log (EnabledParsersAre [''json'', ''yaml'']),
       Log BlankLine, SetContext ''i18n-ally.extract.autoDetect'' False,
       TelemetryTrackEnabled, TelemetryUpdateUserProperties, CheckNotification,
       LoaderCreated \<lparr> loader_root = [''root''], loader_serial = 0 \<rparr>,
       FireDidChangeLoader (Some \<lparr> loader_root = [''root''], loader_serial = 0 \<rparr>)],
      Returned) \<and>
   update unconfigured_env locales_event stale_state = (stale_state, [], Returned) \<and>
   enabled stale_state \<and>
   length (enabledFrameworks stale_state) > 0 \<and>
   length (enabledParsers unconfigured_env stale_state) > 0 \<and>
   localesPaths unconfigured_env stale_state = None"
proof -
  have l: "localesPaths unconfigured_env stale_state = None"
    by (simp add: localesPaths_def stale_state_def enabled_state_def ready_state_def
        Global_initial_def unconfigured_env_fields example_config_def or_empty_def vue_framework_def)
  have p: "length (enabledParsers unconfigured_env stale_state) > 0"
    by (simp add: enabledParsers_def parser_ids_def stale_state_def enabled_state_def
        ready_state_def Global_initial_def unconfigured_env_def bare_env_def example_env_def
        example_config_def or_empty_def vue_framework_def)
  have e: "event locales_event = Some (\<lambda>key. key = ''i18n-ally.localesPaths'')"
    by (simp add: locales_event_def)
  have n: "unrelated unconfigured_env (\<lambda>key. key = ''i18n-ally.localesPaths'')"
    by (simp add: unrelated_def unconfigured_env_fields example_config_def config_key_def)
  have "update unconfigured_env locales_event stale_state =
          (stale_state\<lparr>cacheUsageMatchRegex := Map.empty\<rparr>, [], Returned)"
    using e n by (rule update_unrelated)
  moreover have "stale_state\<lparr>cacheUsageMatchRegex := Map.empty\<rparr> = stale_state"
    by (simp add: stale_state_def enabled_state_def ready_state_def Global_initial_def)
  ultimately have u: "update unconfigured_env locales_event stale_state = (stale_state, [], Returned)"
    by simp
  have en: "enabled stale_state" and f: "length (enabledFrameworks stale_state) > 0"
    by (simp_all add: stale_state_def enabled_state_def)
  from configured_update u en f p l show ?thesis by simp
qed

text \<open>C6 in the example: an event for \<open>editor.fontSize\<close> in a state with a cached entry.\<close>

theorem update_unrelated_event_witness:
  "event other_event = Some (\<lambda>key. key = ''editor.fontSize'') \<and>
   unrelated example_env (\<lambda>key. key = ''editor.fontSize'') \<and>
   update example_env other_event cached_state = (enabled_state, [], Returned)"
proof -
  have e: "event other_event = Some (\<lambda>key. key = ''editor.fontSize'')"
    by (simp add: other_event_def)
  have "cached_state\<lparr>cacheUsageMatchRegex := Map.empty\<rparr> = enabled_state"
    by (simp add: cached_state_eq enabled_state_def ready_state_def Global_initial_def)
  with update_unrelated_event[OF e unrelated_other_event, of cached_state] e unrelated_other_event
  show ?thesis by simp
qed

text \<open>
  C6 as stated fails for the cache: the entry cached before the call is gone after it.
\<close>

theorem update_unrelated_event_counterexample:
  "unrelated example_env (\<lambda>key. key = ''editor.fontSize'') \<and>
   event other_event = Some (\<lambda>key. key = ''editor.fontSize'') \<and>
   cacheUsageMatchRegex cached_state ''vue_undefined'' = Some [''vue-usage''] \<and>
   cacheUsageMatchRegex (fst (update example_env other_event cached_state)) ''vue_undefined'' = None"
proof -
  have e: "event other_event = Some (\<lambda>key. key = ''editor.fontSize'')"
    by (simp add: other_event_def)
  have "update example_env other_event cached_state =
          (cached_state\<lparr>cacheUsageMatchRegex := Map.empty\<rparr>, [], Returned)"
    using e unrelated_other_event by (rule update_unrelated)
  then have "cacheUsageMatchRegex (fst (update example_env other_event cached_state)) ''vue_undefined'' = None"
    by simp
  moreover have "cacheUsageMatchRegex cached_state ''vue_undefined'' = Some [''vue-usage'']"
    by (simp add: cached_state_eq)
  ultimately show ?thesis using e unrelated_other_event by simp
qed

text \<open>C7 in the example: the second call changes nothing and fires one loader-changed event.\<close>

theorem update_twice_witness:
  "(\<exists>e1. update example_env no_event ready_state = (enabled_state, e1, Returned)) \<and>
   (\<exists>e2. update example_env no_event enabled_state = (enabled_state, e2, Returned) \<and>
      filter is_enabled_notification e2 = [] \<and>
      filter is_notification e2 =
        [FireDidChangeLoader (Some \<lparr> loader_root = [''root''], loader_serial = 0 \<rparr>)])"
proof -
  have l: "loader enabled_state = Some \<lparr> loader_root = [''root''], loader_serial = 0 \<rparr>"
    by (simp add: loader_def enabled_state_def ready_state_def Global_initial_def)
  from update_twice[OF example_update] obtain s2 e2
    where u: "update example_env no_event enabled_state = (s2, e2, Returned)"
      and same: "\<not> forces_reload example_env no_event \<longrightarrow> s2 = enabled_state"
      and n1: "filter is_enabled_notification e2 = []"
      and n2: "filter is_notification e2 =
                 (if recomputes example_env no_event then [FireDidChangeLoader (loader s2)] else [])"
    by blast
  have "\<not> forces_reload example_env no_event" by (simp add: forces_reload_def no_event_def)
  with same have "s2 = enabled_state" by simp
  with u n1 n2 l recomputes_no_event[of example_env] example_update show ?thesis by auto
qed

text \<open>
  C7 as stated fails for the loader-changed event: the second of two calls fires it.
\<close>

theorem update_twice_counterexample:
  "FireDidChangeLoader (Some \<lparr> loader_root = [''root''], loader_serial = 0 \<rparr>)
     \<in> set (fst (snd (update example_env no_event (fst (update example_env no_event ready_state)))))"
  by (simp add: example_update example_update_again)

text \<open>
  C8 in the example: the configuration disables the extension while the registry holds
  the loaders of two roots.
\<close>

theorem update_disabled_unloads_all_witness:
  "recomputes disabled_env no_event \<and>
   loaders two_roots_state =
     [([''other''], \<lparr> loader_root = [''other''], loader_serial = 0 \<rparr>),
      ([''root''], \<lparr> loader_root = [''root''], loader_serial = 1 \<rparr>)] \<and>
   \<not> enabled (fst (update disabled_env no_event two_roots_state)) \<and>
   loaders (fst (update disabled_env no_event two_roots_state)) = [] \<and>
   LoaderDisposed \<lparr> loader_root = [''other''], loader_serial = 0 \<rparr>
     \<in> set (fst (snd (update disabled_env no_event two_roots_state))) \<and>
   LoaderDisposed \<lparr> loader_root = [''root''], loader_serial = 1 \<rparr>
     \<in> set (fst (snd (update disabled_env no_event two_roots_state)))"
proof -
  have ls: "loaders two_roots_state =
     [([''other''], \<lparr> loader_root = [''other''], loader_serial = 0 \<rparr>),
      ([''root''], \<lparr> loader_root = [''root''], loader_serial = 1 \<rparr>)]"
    by (simp add: two_roots_state_def)
  have d: "\<not> enabled (two_roots_state\<lparr> enabled := False, loaders := [] \<rparr>)" by simp
  from update_disabled_unloads_all[OF recomputes_no_event disabled_update d]
  show ?thesis using recomputes_no_event[of disabled_env] ls by (simp add: disabled_update)
qed



section \<open>Properties of enabledParsers and getUsageMatchRegex\<close>

lemma filter_empty_list_ex: "(filter P xs = []) = (\<not> list_ex P xs)"
  by (auto simp: filter_empty_conv list_ex_iff)

text \<open>
  C9. When the configuration names no parser (the list is undefined or empty) and the
  enabled frameworks name none, \<open>enabledParsers\<close> is the list of the available parsers
  whose id is a default one; then there is an enabled parser exactly when some available
  parser has a default id.
\<close>

theorem enabledParsers_default:
  assumes "cfg_enabledParsers (config E) = None \<or> cfg_enabledParsers (config E) = Some []"
    and "concat (map (\<lambda>f. or_empty (f_enabledParsers f)) (enabledFrameworks s)) = []"
  shows "enabledParsers E s =
           filter (\<lambda>i. parser_id i \<in> set (DefaultEnabledParsers E)) (AvailableParsers E)
         \<and> (length (enabledParsers E s) > 0 \<longleftrightarrow>
              list_ex (\<lambda>i. parser_id i \<in> set (DefaultEnabledParsers E)) (AvailableParsers E))"
proof -
  from assms have "parser_ids E s = DefaultEnabledParsers E"
    by (auto simp: parser_ids_def)
  then have e: "enabledParsers E s =
           filter (\<lambda>i. parser_id i \<in> set (DefaultEnabledParsers E)) (AvailableParsers E)"
    by (simp add: enabledParsers_def)
  have "(enabledParsers E s = []) =
          (\<not> list_ex (\<lambda>i. parser_id i \<in> set (DefaultEnabledParsers E)) (AvailableParsers E))"
    unfolding e by (rule filter_empty_list_ex)
  with e show ?thesis by auto
qed

text \<open>C9 in the example, before any framework is enabled.\<close>

theorem enabledParsers_default_witness:
  "cfg_enabledParsers (config example_env) = None \<and>
   concat (map (\<lambda>f. or_empty (f_enabledParsers f)) (enabledFrameworks Global_initial)) = [] \<and>
   enabledParsers example_env Global_initial =
     [\<lparr> parser_id = ''json'', supportedExts = ''json'' \<rparr>,
      \<lparr> parser_id = ''yaml'', supportedExts = ''ya?ml'' \<rparr>] \<and>
   length (enabledParsers example_env Global_initial) > 0"
proof -
  have c: "cfg_enabledParsers (config example_env) = None \<or> cfg_enabledParsers (config example_env) = Some []"
    by (simp add: example_env_fields example_config_def)
  have f: "concat (map (\<lambda>f. or_empty (f_enabledParsers f)) (enabledFrameworks Global_initial)) = []"
    by (simp add: Global_initial_def)
  from enabledParsers_default[OF c f] c f show ?thesis
    by (simp add: example_env_fields example_config_def)
qed

lemma getUsageMatchRegex_custom:
  assumes "cfg_regexUsageMatch (config E) = Some ov"
  shows "getUsageMatchRegex E s l f =
           (case cacheUsageMatchRegex s ''custom'' of
              None \<Rightarrow>
                (normalizeUsageMatchRegex E (ov @ cfg_regexUsageMatchAppend (config E)),
                 s\<lparr>cacheUsageMatchRegex := (cacheUsageMatchRegex s)
                      (''custom'' \<mapsto> normalizeUsageMatchRegex E (ov @ cfg_regexUsageMatchAppend (config E)))\<rparr>)
            | Some v \<Rightarrow> (v, s))"
  using assms
  by (cases "cacheUsageMatchRegex s ''custom''") (simp_all add: getUsageMatchRegex_def Let_def)

lemma custom_ok_step:
  assumes "cfg_regexUsageMatch (config E) = Some ov"
    and "custom_ok (normalizeUsageMatchRegex E (ov @ cfg_regexUsageMatchAppend (config E))) s"
  shows "fst (getUsageMatchRegex E s l f) = normalizeUsageMatchRegex E (ov @ cfg_regexUsageMatchAppend (config E))"
    and "custom_ok (normalizeUsageMatchRegex E (ov @ cfg_regexUsageMatchAppend (config E)))
           (snd (getUsageMatchRegex E s l f))"
  using assms(2)
  by (auto simp: getUsageMatchRegex_custom[OF assms(1)] custom_ok_def split: option.splits)

lemma custom_ok_calls:
  assumes "cfg_regexUsageMatch (config E) = Some ov"
    and "custom_ok (normalizeUsageMatchRegex E (ov @ cfg_regexUsageMatchAppend (config E))) s"
  shows "custom_ok (normalizeUsageMatchRegex E (ov @ cfg_regexUsageMatchAppend (config E)))
           (getUsageMatchRegex_calls E s calls)"
  using assms(2)
proof (induction calls arbitrary: s)
  case Nil
  then show ?case by simp
next
  case (Cons a as)
  from custom_ok_step(2)[OF assms(1) Cons.prems]
  have "custom_ok (normalizeUsageMatchRegex E (ov @ cfg_regexUsageMatchAppend (config E)))
          (snd (getUsageMatchRegex E s (fst a) (snd a)))" .
  from Cons.IH[OF this] show ?case by simp
qed

text \<open>
  C10. With the usage-match override configured, \<open>getUsageMatchRegex\<close> does not depend
  on its arguments: two calls in one state return the same, a call after another returns
  what the first returned, and after \<open>resetCache\<close> and any calls the result is the
  normalised override and append-list, with nothing from the frameworks. The value is
  cached under the one key \<open>custom\<close>: a call returns the entry when there is one, computes
  the value when there is none, leaves the returned value in the entry, and changes no
  other entry and no other field.
\<close>

theorem getUsageMatchRegex_override:
  assumes "cfg_regexUsageMatch (config E) = Some ov"
  shows "getUsageMatchRegex E s l1 f1 = getUsageMatchRegex E s l2 f2
       \<and> fst (getUsageMatchRegex E (snd (getUsageMatchRegex E s l1 f1)) l2 f2)
           = fst (getUsageMatchRegex E s l1 f1)
       \<and> fst (getUsageMatchRegex E (getUsageMatchRegex_calls E (resetCache s) calls) l f)
           = normalizeUsageMatchRegex E (ov @ cfg_regexUsageMatchAppend (config E))
       \<and> (\<forall>key. key \<noteq> ''custom'' \<longrightarrow>
            cacheUsageMatchRegex (snd (getUsageMatchRegex E s l f)) key = cacheUsageMatchRegex s key)
       \<and> cacheUsageMatchRegex (snd (getUsageMatchRegex E s l f)) ''custom''
           = Some (fst (getUsageMatchRegex E s l f))
       \<and> snd (getUsageMatchRegex E s l f)
           = s\<lparr>cacheUsageMatchRegex :=
                 (cacheUsageMatchRegex s)(''custom'' \<mapsto> fst (getUsageMatchRegex E s l f))\<rparr>
       \<and> (\<forall>v. cacheUsageMatchRegex s ''custom'' = Some v \<longrightarrow>
            getUsageMatchRegex E s l f = (v, s))
       \<and> (cacheUsageMatchRegex s ''custom'' = None \<longrightarrow>
            fst (getUsageMatchRegex E s l f)
              = normalizeUsageMatchRegex E (ov @ cfg_regexUsageMatchAppend (config E)))"
proof -
  let ?v = "normalizeUsageMatchRegex E (ov @ cfg_regexUsageMatchAppend (config E))"
  note c = getUsageMatchRegex_custom[OF assms]
  have a: "getUsageMatchRegex E s l1 f1 = getUsageMatchRegex E s l2 f2"
    by (simp only: c)
  have b: "fst (getUsageMatchRegex E (snd (getUsageMatchRegex E s l1 f1)) l2 f2)
             = fst (getUsageMatchRegex E s l1 f1)"
    by (cases "cacheUsageMatchRegex s ''custom''") (simp_all add: c)
  have "custom_ok ?v (resetCache s)" by (simp add: custom_ok_def resetCache_def)
  then have "custom_ok ?v (getUsageMatchRegex_calls E (resetCache s) calls)"
    by (rule custom_ok_calls[OF assms])
  then have d: "fst (getUsageMatchRegex E (getUsageMatchRegex_calls E (resetCache s) calls) l f) = ?v"
    by (rule custom_ok_step(1)[OF assms])
  have e: "\<forall>key. key \<noteq> ''custom'' \<longrightarrow>
            cacheUsageMatchRegex (snd (getUsageMatchRegex E s l f)) key = cacheUsageMatchRegex s key"
    by (cases "cacheUsageMatchRegex s ''custom''") (simp_all add: c)
  have g: "cacheUsageMatchRegex (snd (getUsageMatchRegex E s l f)) ''custom''
             = Some (fst (getUsageMatchRegex E s l f))"
    by (cases "cacheUsageMatchRegex s ''custom''") (simp_all add: c)
  have h: "snd (getUsageMatchRegex E s l f)
             = s\<lparr>cacheUsageMatchRegex :=
                   (cacheUsageMatchRegex s)(''custom'' \<mapsto> fst (getUsageMatchRegex E s l f))\<rparr>"
  proof (cases "cacheUsageMatchRegex s ''custom''")
    case None
    then show ?thesis by (simp add: c)
  next
    case (Some v)
    then have "(cacheUsageMatchRegex s)(''custom'' \<mapsto> v) = cacheUsageMatchRegex s"
      by (rule map_upd_triv)
    with Some show ?thesis by (simp add: c)
  qed
  have i: "\<forall>v. cacheUsageMatchRegex s ''custom'' = Some v \<longrightarrow> getUsageMatchRegex E s l f = (v, s)"
    by (simp add: c)
  have j: "cacheUsageMatchRegex s ''custom'' = None \<longrightarrow> fst (getUsageMatchRegex E s l f) = ?v"
    by (simp add: c)
  from a b d e g h i j show ?thesis by blast
qed

text \<open>
  C10 in the example with an override: three calls with different arguments return the
  override and the appended pattern, and the first leaves them in the entry \<open>custom\<close>.
\<close>

theorem getUsageMatchRegex_override_witness:
  "cfg_regexUsageMatch (config override_env) = Some [''custom-usage''] \<and>
   fst (getUsageMatchRegex override_env
          (getUsageMatchRegex_calls override_env (resetCache enabled_state)
             [(Some ''vue'', Some ''/root/app/a.vue''), (None, None)])
          (Some ''typescript'') None)
     = [''custom-usage'', ''appended''] \<and>
   cacheUsageMatchRegex enabled_state ''custom'' = None \<and>
   fst (getUsageMatchRegex override_env enabled_state (Some ''vue'') (Some ''/root/app/a.vue''))
     = [''custom-usage'', ''appended''] \<and>
   cacheUsageMatchRegex
     (snd (getUsageMatchRegex override_env enabled_state (Some ''vue'') (Some ''/root/app/a.vue'')))
     ''custom'' = Some [''custom-usage'', ''appended'']"
proof -
  have c: "cfg_regexUsageMatch (config override_env) = Some [''custom-usage'']"
    by (simp add: override_env_def example_env_def example_config_def)
  have n: "cacheUsageMatchRegex enabled_state ''custom'' = None"
    by (simp add: enabled_state_def ready_state_def Global_initial_def)
  from getUsageMatchRegex_override[OF c, of enabled_state None None None None
      "[(Some ''vue'', Some ''/root/app/a.vue''), (None, None)]" "Some ''typescript''" None]
  have r: "fst (getUsageMatchRegex override_env
          (getUsageMatchRegex_calls override_env (resetCache enabled_state)
             [(Some ''vue'', Some ''/root/app/a.vue''), (None, None)])
          (Some ''typescript'') None)
     = [''custom-usage'', ''appended'']"
    by (simp add: override_env_def example_env_def example_config_def)
  from getUsageMatchRegex_override[OF c, of enabled_state None None None None "[]"
      "Some ''vue''" "Some ''/root/app/a.vue''"] n
  have "fst (getUsageMatchRegex override_env enabled_state (Some ''vue'') (Some ''/root/app/a.vue''))
     = [''custom-usage'', ''appended'']"
    and "cacheUsageMatchRegex
     (snd (getUsageMatchRegex override_env enabled_state (Some ''vue'') (Some ''/root/app/a.vue'')))
     ''custom'' = Some [''custom-usage'', ''appended'']"
    by (simp_all add: override_env_def example_env_def example_config_def)
  with c n r show ?thesis by simp
qed

end
